theory Spec2Isabelle
  imports Main
begin

section \<open>Data model (types.ts)\<close>

text \<open>
  \<open>BorrowerInput\<close> as declared in types.ts. The five numeric fields are the values of the
  range sliders (whole numbers), modelled as \<open>int\<close>.
\<close>

record BorrowerInput =
  businessType :: string
  industry :: string
  revenue :: int
  cashFlowStability :: int
  debtToIncomeRatio :: int
  creditHistory :: string
  energySource :: string
  carbonIntensity :: int
  laborCompliance :: int
  regulatoryIssues :: string

text \<open>
  Every derived artifact is whatever \<open>JSON.parse\<close> returned: the TypeScript interfaces
  (\<open>NormalizedData\<close>, \<open>DecisionResponse\<close>, ...) are erased at run time, so the values held
  by the component are plain JSON values. Numbers are kept as \<open>int\<close>; the orchestration
  never computes with them.
\<close>

datatype json =
    JNull
  | JBool bool
  | JNum int
  | JStr string
  | JArr "json list"
  | JObj "(string \<times> json) list"

text \<open>JavaScript truthiness of a parsed JSON value, as tested by \<open>if (normalized)\<close>.\<close>

fun truthy :: "json \<Rightarrow> bool" where
  "truthy JNull = False"
| "truthy (JBool b) = b"
| "truthy (JNum n) = (n \<noteq> 0)"
| "truthy (JStr s) = (s \<noteq> [])"
| "truthy (JArr xs) = True"
| "truthy (JObj kvs) = True"

datatype js_error = ApiError | SyntaxError | TypeError

text \<open>
  Property access \<open>v.k\<close>: it throws a TypeError on \<open>null\<close>, gives the member of an object
  (the last one when \<open>JSON.parse\<close> met the key twice) and \<open>undefined\<close> (\<open>None\<close>) otherwise.
  The adapters read three names only, \<open>financial\<close>, \<open>sustainability\<close> and \<open>score\<close>, none
  of them a built-in member of a string, a number, a boolean or an array.
\<close>

fun member :: "json \<Rightarrow> string \<Rightarrow> js_error + json option" where
  "member JNull k = Inl TypeError"
| "member (JObj kvs) k = Inr (map_of (rev kvs) k)"
| "member v k = Inr None"

text \<open>
  Whether a parsed value can be converted to a string, as a template literal \<open>${v}\<close> does.
  Primitives can. An object is converted by its \<open>toString\<close>: an own member of that name,
  which after \<open>JSON.parse\<close> is never callable, hides \<open>Object.prototype.toString\<close>, and the
  inherited \<open>valueOf\<close> gives the object back, so the conversion throws a TypeError. An
  array is converted by \<open>join\<close>, which converts each of its elements (\<open>null\<close> to the empty
  string).
\<close>

fun convertible :: "json \<Rightarrow> bool" where
  "convertible (JArr xs) = list_all convertible xs"
| "convertible (JObj kvs) = (''toString'' \<notin> set (map fst kvs))"
| "convertible v = True"

text \<open>
  \<open>${v.score}\<close>: the member is read, then converted; \<open>undefined\<close> converts to a string.
\<close>

definition interpolate_score :: "json \<Rightarrow> js_error + json option" where
  "interpolate_score v =
     (case member v ''score'' of
        Inl e \<Rightarrow> Inl e
      | Inr None \<Rightarrow> Inr None
      | Inr (Some x) \<Rightarrow> (if convertible x then Inr (Some x) else Inl TypeError))"

text \<open>The enum \<open>AppStep\<close>: a numeric enum, \<open>Input = 1\<close> up to \<open>Review = 8\<close>.\<close>

definition AppStep_Input :: int where "AppStep_Input = 1"
definition AppStep_Normalization :: int where "AppStep_Normalization = 2"
definition AppStep_Review :: int where "AppStep_Review = 8"

section \<open>Stage adapters (services/geminiService.ts)\<close>

datatype stage = Normalize | Financial | Sustainability | Decision | Uplift | Climate | Review

text \<open>
  What an adapter interpolates into the prompt it sends: the snapshot of the input for
  \<open>normalizeData\<close>, the members it reads from its arguments for the others (\<open>None\<close> is
  \<open>undefined\<close>), the whole history for \<open>getReview\<close>.
\<close>

datatype request =
    NormalizeReq BorrowerInput
  | FinancialReq "json option"
  | SustainabilityReq "json option"
  | DecisionReq "json option" "json option"
  | UpliftReq "json option"
  | ClimateReq "json option" "json option"
  | ReviewReq json json json json json json

text \<open>
  The first half of each adapter: building the prompt, up to the call of
  \<open>ai.models.generateContent\<close>. A TypeError thrown here rejects the adapter's promise and
  no request leaves. \<open>normalizeData\<close> interpolates numbers of the input and
  \<open>JSON.stringify(input)\<close>; the two risk adapters and \<open>getReview\<close> pass what they read
  through \<open>JSON.stringify\<close>, which does not throw on a parsed value.
\<close>

definition normalizeData :: "BorrowerInput \<Rightarrow> js_error + request" where
  "normalizeData inp = Inr (NormalizeReq inp)"

definition assessFinancialRisk :: "json \<Rightarrow> js_error + request" where
  "assessFinancialRisk data =
     (case member data ''financial'' of Inl e \<Rightarrow> Inl e | Inr v \<Rightarrow> Inr (FinancialReq v))"

definition assessSustainabilityRisk :: "json \<Rightarrow> js_error + request" where
  "assessSustainabilityRisk data =
     (case member data ''sustainability'' of Inl e \<Rightarrow> Inl e | Inr v \<Rightarrow> Inr (SustainabilityReq v))"

text \<open>
  The next three interpolate \<open>${...score}\<close> directly (lines 118, 138 and 167), from left to
  right, so each can also throw while converting the member.
\<close>

definition getDecision :: "json \<Rightarrow> json \<Rightarrow> js_error + request" where
  "getDecision financial sustainability =
     (case interpolate_score financial of
        Inl e \<Rightarrow> Inl e
      | Inr f \<Rightarrow> (case interpolate_score sustainability of
                    Inl e \<Rightarrow> Inl e
                  | Inr su \<Rightarrow> Inr (DecisionReq f su)))"

definition planUplift :: "json \<Rightarrow> js_error + request" where
  "planUplift current =
     (case interpolate_score current of Inl e \<Rightarrow> Inl e | Inr v \<Rightarrow> Inr (UpliftReq v))"

definition simulateClimate :: "json \<Rightarrow> json \<Rightarrow> js_error + request" where
  "simulateClimate financial sustainability =
     (case interpolate_score financial of
        Inl e \<Rightarrow> Inl e
      | Inr f \<Rightarrow> (case interpolate_score sustainability of
                    Inl e \<Rightarrow> Inl e
                  | Inr su \<Rightarrow> Inr (ClimateReq f su)))"

definition getReview :: "json \<Rightarrow> json \<Rightarrow> json \<Rightarrow> json \<Rightarrow> json \<Rightarrow> json \<Rightarrow> js_error + request" where
  "getReview n f su d u si = Inr (ReviewReq n f su d u si)"

text \<open>
  What comes back from \<open>generateContent\<close>: the call rejects (transport, key, timeout), or it
  resolves with a text that \<open>JSON.parse\<close> refuses, or with a text that parses to a value.
\<close>

datatype reply = Rejects | Garbled | Parses json

text \<open>
  The second half, the same two lines in all seven adapters:
  \<open>const response = await ai.models.generateContent(...); return JSON.parse(response.text)\<close>.
  Nothing looks at the parsed value.
\<close>

fun parse_response :: "reply \<Rightarrow> js_error + json" where
  "parse_response Rejects = Inl ApiError"
| "parse_response Garbled = Inl SyntaxError"
| "parse_response (Parses v) = Inr v"

section \<open>The component (App.tsx)\<close>

text \<open>
  One invocation of \<open>runAnalysis\<close>. It is suspended at one of its five awaits, and the
  constants bound so far (\<open>norm\<close>, \<open>fin\<close>, \<open>sust\<close>, \<open>dec\<close>) are in scope of what follows
  the await; the two options of a \<open>Promise.all\<close> are the results of its two promises,
  \<open>None\<close> while pending.
\<close>

datatype pc =
    AwaitNormalize
  | AwaitRisk json "json option" "json option"
  | AwaitDecision json json json
  | AwaitUplift json json json json "json option" "json option"
  | AwaitReview
  | Succeeded
  | Failed js_error

text \<open>
  The record of a run: the \<open>input\<close> its closure holds, its argument \<open>isRealTime\<close>, where it
  is, and three logs kept for the proofs: the value each local constant was bound to
  (\<open>None\<close> while unbound; the suffix \<open>_l\<close> keeps the names apart from library names), the
  adapters invoked so far, and the requests that left.
\<close>

record run =
  snapshot :: BorrowerInput
  isRealTime :: bool
  pc :: pc
  norm_l :: "json option"
  fin_l :: "json option"
  sust_l :: "json option"
  dec_l :: "json option"
  up_l :: "json option"
  sim_l :: "json option"
  rev_l :: "json option"
  started :: "stage list"
  sent :: "request list"

text \<open>A pending \<open>setTimeout\<close>: its id, when it is due, and the \<open>input\<close> of the closure it will call.\<close>

record timeout =
  tid :: nat
  due :: nat
  closure_input :: BorrowerInput

text \<open>
  The component's state (the \<open>useState\<close> cells and the \<open>debounceTimer\<close> ref) and its
  environment: the pending timeouts, the clock in milliseconds, the invocations of
  \<open>runAnalysis\<close> made so far (a run is named by its position), what \<open>console.error\<close>
  received and how many alerts were shown.
\<close>

record app =
  step :: int
  loading :: bool
  realTimeUpdate :: bool
  input :: BorrowerInput
  normalized :: json
  financialRisk :: json
  sustainabilityRisk :: json
  decision :: json
  uplift :: json
  simulations :: json
  review :: json
  debounceTimer :: "nat option"
  timers :: "timeout list"
  next_timer :: nat
  now :: nat
  runs :: "run list"
  console :: "js_error list"
  alerts :: nat

definition init_input :: BorrowerInput where
  "init_input = \<lparr> businessType = ''SME'', industry = ''Manufacturing'', revenue = 5000000,
     cashFlowStability = 75, debtToIncomeRatio = 35, creditHistory = ''7 years clean'',
     energySource = ''Grid Mix (Coal heavy)'', carbonIntensity = 80, laborCompliance = 90,
     regulatoryIssues = ''None'' \<rparr>"

definition init :: app where
  "init = \<lparr> step = AppStep_Input, loading = False, realTimeUpdate = False, input = init_input,
     normalized = JNull, financialRisk = JNull, sustainabilityRisk = JNull, decision = JNull,
     uplift = JNull, simulations = JArr [], review = JNull, debounceTimer = None,
     timers = [], next_timer = 1, now = 0, runs = [], console = [], alerts = 0 \<rparr>"

subsection \<open>runAnalysis\<close>

text \<open>The \<open>catch\<close> and \<open>finally\<close> blocks, lines 84 to 90.\<close>

definition catch_finally :: "bool \<Rightarrow> js_error \<Rightarrow> app \<Rightarrow> app" where
  "catch_finally rt e s =
     s\<lparr> console := e # console s,
        alerts := (if rt then alerts s else alerts s + 1),
        loading := False,
        realTimeUpdate := False \<rparr>"

text \<open>
  A list of adapter calls, each with what became of building its prompt: the first error
  thrown among them, and the requests that left.
\<close>

fun thrown :: "(stage \<times> (js_error + request)) list \<Rightarrow> js_error option" where
  "thrown [] = None"
| "thrown ((st, Inl e) # cs) = Some e"
| "thrown ((st, Inr q) # cs) = thrown cs"

fun issued :: "(stage \<times> (js_error + request)) list \<Rightarrow> request list" where
  "issued [] = []"
| "issued ((st, Inl e) # cs) = issued cs"
| "issued ((st, Inr q) # cs) = q # issued cs"

text \<open>
  Invoking one adapter (\<open>await f(..)\<close>) or two (\<open>await Promise.all([f(..), g(..)])\<close>): all
  are invoked, those that did not throw have sent their request, and the await rejects at
  once with the first error thrown, which takes the run to its \<open>catch\<close>.
\<close>

definition launch :: "(stage \<times> (js_error + request)) list \<Rightarrow> pc \<Rightarrow> run \<Rightarrow> app \<Rightarrow> run \<times> app" where
  "launch cs p r s =
     (let r1 = r\<lparr> started := started r @ map fst cs, sent := sent r @ issued cs \<rparr>
      in case thrown cs of
           None \<Rightarrow> (r1\<lparr> pc := p \<rparr>, s)
         | Some e \<Rightarrow> (r1\<lparr> pc := Failed e \<rparr>, catch_finally (isRealTime r) e s))"

text \<open>Lines 61 to 66: \<open>normalizeData\<close> has resolved with \<open>v\<close>.\<close>

definition after_normalize :: "json \<Rightarrow> run \<Rightarrow> app \<Rightarrow> run \<times> app" where
  "after_normalize v r s =
     launch [(Financial, assessFinancialRisk v), (Sustainability, assessSustainabilityRisk v)]
       (AwaitRisk v None None) (r\<lparr> norm_l := Some v \<rparr>) (s\<lparr> normalized := v \<rparr>)"

text \<open>
  Lines 63 to 70: one of the two risk promises has resolved. \<open>Promise.all\<close> resolves once
  both have; until then the run stays suspended and nothing is set.
\<close>

definition join_risk :: "json \<Rightarrow> json option \<Rightarrow> json option \<Rightarrow> run \<Rightarrow> app \<Rightarrow> run \<times> app" where
  "join_risk n a b r s =
     (case (a, b) of
        (Some f, Some su) \<Rightarrow>
          launch [(Decision, getDecision f su)] (AwaitDecision n f su)
            (r\<lparr> fin_l := Some f, sust_l := Some su \<rparr>)
            (s\<lparr> financialRisk := f, sustainabilityRisk := su \<rparr>)
      | _ \<Rightarrow> (r\<lparr> pc := AwaitRisk n a b \<rparr>, s))"

text \<open>Lines 71 to 76: \<open>getDecision\<close> has resolved with \<open>v\<close>.\<close>

definition after_decision :: "json \<Rightarrow> json \<Rightarrow> json \<Rightarrow> json \<Rightarrow> run \<Rightarrow> app \<Rightarrow> run \<times> app" where
  "after_decision n f su v r s =
     launch [(Uplift, planUplift su), (Climate, simulateClimate f su)]
       (AwaitUplift n f su v None None) (r\<lparr> dec_l := Some v \<rparr>) (s\<lparr> decision := v \<rparr>)"

text \<open>Lines 73 to 80: one of \<open>planUplift\<close> and \<open>simulateClimate\<close> has resolved.\<close>

definition join_uplift ::
  "json \<Rightarrow> json \<Rightarrow> json \<Rightarrow> json \<Rightarrow> json option \<Rightarrow> json option \<Rightarrow> run \<Rightarrow> app \<Rightarrow> run \<times> app" where
  "join_uplift n f su d a b r s =
     (case (a, b) of
        (Some u, Some si) \<Rightarrow>
          launch [(Review, getReview n f su d u si)] AwaitReview
            (r\<lparr> up_l := Some u, sim_l := Some si \<rparr>)
            (s\<lparr> uplift := u, simulations := si \<rparr>)
      | _ \<Rightarrow> (r\<lparr> pc := AwaitUplift n f su d a b \<rparr>, s))"

text \<open>Lines 81, 83 and the \<open>finally\<close> block: \<open>getReview\<close> has resolved with \<open>v\<close>.\<close>

definition after_review :: "json \<Rightarrow> run \<Rightarrow> app \<Rightarrow> run \<times> app" where
  "after_review v r s =
     (r\<lparr> rev_l := Some v, pc := Succeeded \<rparr>,
      s\<lparr> review := v,
         step := (if isRealTime r then step s else AppStep_Normalization),
         loading := False,
         realTimeUpdate := False \<rparr>)"

text \<open>Whether a run at \<open>p\<close> is waiting for the promise of stage \<open>st\<close>.\<close>

fun awaits :: "pc \<Rightarrow> stage \<Rightarrow> bool" where
  "awaits AwaitNormalize st = (st = Normalize)"
| "awaits (AwaitRisk n a b) st = (st = Financial \<and> a = None \<or> st = Sustainability \<and> b = None)"
| "awaits (AwaitDecision n f su) st = (st = Decision)"
| "awaits (AwaitUplift n f su d a b) st = (st = Uplift \<and> a = None \<or> st = Climate \<and> b = None)"
| "awaits AwaitReview st = (st = Review)"
| "awaits Succeeded st = False"
| "awaits (Failed e) st = False"

text \<open>The run resumes: the promise of stage \<open>st\<close>, which it waits for, has resolved with \<open>v\<close>.\<close>

fun on_resolve :: "pc \<Rightarrow> stage \<Rightarrow> json \<Rightarrow> run \<Rightarrow> app \<Rightarrow> run \<times> app" where
  "on_resolve AwaitNormalize st v r s = after_normalize v r s"
| "on_resolve (AwaitRisk n a b) st v r s =
     (if st = Financial then join_risk n (Some v) b r s else join_risk n a (Some v) r s)"
| "on_resolve (AwaitDecision n f su) st v r s = after_decision n f su v r s"
| "on_resolve (AwaitUplift n f su d a b) st v r s =
     (if st = Uplift then join_uplift n f su d (Some v) b r s
      else join_uplift n f su d a (Some v) r s)"
| "on_resolve AwaitReview st v r s = after_review v r s"
| "on_resolve Succeeded st v r s = (r, s)"
| "on_resolve (Failed e) st v r s = (r, s)"

text \<open>
  The oracle answers the call of stage \<open>st\<close> made by run \<open>r\<close>. An answer to a promise the
  run is not waiting for (it has failed meanwhile, or the stage has not been called) changes
  nothing. A rejected promise takes the run to its \<open>catch\<close>.
\<close>

definition deliver :: "stage \<Rightarrow> reply \<Rightarrow> run \<Rightarrow> app \<Rightarrow> run \<times> app" where
  "deliver st rep r s =
     (if awaits (pc r) st then
        (case parse_response rep of
           Inl e \<Rightarrow> (r\<lparr> pc := Failed e \<rparr>, catch_finally (isRealTime r) e s)
         | Inr v \<Rightarrow> on_resolve (pc r) st v r s)
      else (r, s))"

text \<open>
  Lines 56 to 60, the synchronous start of \<open>runAnalysis(isRealTime)\<close> in a closure over
  \<open>inp\<close>: the flags are set and \<open>normalizeData(input)\<close> is called.
\<close>

definition new_run :: "bool \<Rightarrow> BorrowerInput \<Rightarrow> run" where
  "new_run rt inp = \<lparr> snapshot = inp, isRealTime = rt, pc = AwaitNormalize,
     norm_l = None, fin_l = None, sust_l = None, dec_l = None, up_l = None, sim_l = None,
     rev_l = None, started = [], sent = [] \<rparr>"

definition runAnalysis :: "bool \<Rightarrow> BorrowerInput \<Rightarrow> app \<Rightarrow> app" where
  "runAnalysis rt inp s =
     (let s1 = s\<lparr> loading := (if rt then loading s else True), realTimeUpdate := True \<rparr>;
          (r, s2) = launch [(Normalize, normalizeData inp)] AwaitNormalize (new_run rt inp) s1
      in s2\<lparr> runs := runs s2 @ [r] \<rparr>)"

subsection \<open>handleInputChange and the debounce effect\<close>

text \<open>
  The edits the form offers: the five range sliders (\<open>Number(value)\<close>), the industry select,
  the energy-source textarea, and the business-type buttons.
\<close>

datatype edit =
    SetRevenue int
  | SetDebtToIncomeRatio int
  | SetCarbonIntensity int
  | SetLaborCompliance int
  | SetCashFlowStability int
  | SetIndustry string
  | SetEnergySource string
  | SetBusinessType string

fun apply_edit :: "edit \<Rightarrow> BorrowerInput \<Rightarrow> BorrowerInput" where
  "apply_edit (SetRevenue n) inp = inp\<lparr> revenue := n \<rparr>"
| "apply_edit (SetDebtToIncomeRatio n) inp = inp\<lparr> debtToIncomeRatio := n \<rparr>"
| "apply_edit (SetCarbonIntensity n) inp = inp\<lparr> carbonIntensity := n \<rparr>"
| "apply_edit (SetLaborCompliance n) inp = inp\<lparr> laborCompliance := n \<rparr>"
| "apply_edit (SetCashFlowStability n) inp = inp\<lparr> cashFlowStability := n \<rparr>"
| "apply_edit (SetIndustry x) inp = inp\<lparr> industry := x \<rparr>"
| "apply_edit (SetEnergySource x) inp = inp\<lparr> energySource := x \<rparr>"
| "apply_edit (SetBusinessType x) inp = inp\<lparr> businessType := x \<rparr>"

text \<open>The dependency array of the effect, line 107.\<close>

definition watched :: "BorrowerInput \<Rightarrow> int \<times> int \<times> int \<times> int \<times> int" where
  "watched inp = (revenue inp, debtToIncomeRatio inp, carbonIntensity inp,
                  laborCompliance inp, cashFlowStability inp)"

text \<open>\<open>clearTimeout(i)\<close>: the timeout with this id is no longer pending.\<close>

definition clearTimeout :: "nat \<Rightarrow> app \<Rightarrow> app" where
  "clearTimeout i s = s\<lparr> timers := filter (\<lambda>t. tid t \<noteq> i) (timers s) \<rparr>"

text \<open>Lines 95 and 105: \<open>if (debounceTimer.current) clearTimeout(debounceTimer.current)\<close>.\<close>

definition clear_pending :: "app \<Rightarrow> app" where
  "clear_pending s = (case debounceTimer s of None \<Rightarrow> s | Some i \<Rightarrow> clearTimeout i s)"

text \<open>
  Lines 95 to 102, the body of the effect. The callback calls the \<open>runAnalysis\<close> of the
  render the effect ran in, whose closure holds that render's \<open>input\<close>.
\<close>

definition debounce_effect :: "app \<Rightarrow> app" where
  "debounce_effect s =
     (let s1 = clear_pending s
      in if truthy (normalized s1) then
           s1\<lparr> timers := timers s1 @ [\<lparr> tid = next_timer s1, due = now s1 + 800,
                                        closure_input = input s1 \<rparr>],
               debounceTimer := Some (next_timer s1),
               next_timer := next_timer s1 + 1 \<rparr>
         else s1)"

text \<open>
  \<open>setInput\<close> and the render that follows: when one of the watched values differs from the
  last render's, the previous effect's cleanup runs and then the effect.
\<close>

definition handleInputChange :: "edit \<Rightarrow> app \<Rightarrow> app" where
  "handleInputChange e s =
     (let s1 = s\<lparr> input := apply_edit e (input s) \<rparr>
      in if watched (input s1) \<noteq> watched (input s) then debounce_effect (clear_pending s1)
         else s1)"

subsection \<open>Navigation\<close>

definition nextStep :: "app \<Rightarrow> app" where
  "nextStep s = s\<lparr> step := min (step s + 1) AppStep_Review \<rparr>"

definition prevStep :: "app \<Rightarrow> app" where
  "prevStep s = s\<lparr> step := max (step s - 1) AppStep_Input \<rparr>"

subsection \<open>Events\<close>

text \<open>
  What can happen to the mounted component. The form and its submit button are rendered on
  the input step only, and the button is disabled while \<open>loading\<close>; Back and Next are
  rendered from the second step on, Next disabled on the last. A timeout fires once it is
  due. \<open>Unmount\<close> runs the effect's cleanup.
\<close>

datatype event =
    Change edit
  | RunClick
  | Next
  | Prev
  | Elapse nat
  | TimerFires nat
  | Reply nat stage reply
  | Unmount

fun react :: "event \<Rightarrow> app \<Rightarrow> app" where
  "react (Change e) s = (if step s = AppStep_Input then handleInputChange e s else s)"
| "react RunClick s =
     (if step s = AppStep_Input \<and> \<not> loading s then runAnalysis False (input s) s else s)"
| "react Next s = (if 1 < step s \<and> step s \<noteq> AppStep_Review then nextStep s else s)"
| "react Prev s = (if 1 < step s then prevStep s else s)"
| "react (Elapse d) s = s\<lparr> now := now s + d \<rparr>"
| "react (TimerFires i) s =
     (case filter (\<lambda>t. tid t = i \<and> due t \<le> now s) (timers s) of
        [] \<Rightarrow> s
      | t # ts \<Rightarrow>
          runAnalysis True (closure_input t) (s\<lparr> timers := filter (\<lambda>t. tid t \<noteq> i) (timers s) \<rparr>))"
| "react (Reply i st rep) s =
     (if i < length (runs s) then
        (let (r, s1) = deliver st rep (runs s ! i) s
         in s1\<lparr> runs := (runs s)[i := r] \<rparr>)
      else s)"
| "react Unmount s = clear_pending s"

fun exec :: "event list \<Rightarrow> app \<Rightarrow> app" where
  "exec [] s = s"
| "exec (ev # evs) s = exec evs (react ev s)"

section \<open>Sample oracle answers\<close>

definition ex_norm :: json where
  "ex_norm =
     JObj [(''financial'', JObj [(''revenueScore'', JNum 60), (''cashFlowStability'', JNum 75),
                                 (''debtRatio'', JNum 35), (''creditScore'', JNum 80)]),
           (''sustainability'', JObj [(''energyCleanliness'', JNum 25), (''carbonEfficiency'', JNum 20),
                                      (''laborEthics'', JNum 90), (''regulatoryRisk'', JNum 10)])]"

definition ex_fin :: json where
  "ex_fin = JObj [(''score'', JNum 70), (''band'', JStr ''Low''),
                  (''breakdown'', JArr [JObj [(''name'', JStr ''Liquidity''), (''value'', JNum 75)]]),
                  (''summary'', JStr ''stable cash flow'')]"

definition ex_sust :: json where
  "ex_sust = JObj [(''score'', JNum 40),
                   (''sdgs'', JArr [JObj [(''subject'', JStr ''Climate Action''), (''A'', JNum 30),
                                          (''fullMark'', JNum 100)]]),
                   (''impactDescription'', JStr ''coal heavy grid'')]"

definition ex_dec :: json where
  "ex_dec = JObj [(''greenCreditScore'', JNum 55), (''status'', JStr ''Conditional''),
                  (''justification'', JStr ''sound finances, high emissions''),
                  (''aprAdjustment'', JStr ''+0.5'')]"

definition ex_up :: json where
  "ex_up = JObj [(''currentScore'', JNum 40), (''projectedScore'', JNum 65),
                 (''recommendations'', JArr [JObj [(''title'', JStr ''Solar''),
                                                   (''action'', JStr ''install rooftop panels''),
                                                   (''impact'', JStr ''high'')]])]"

definition ex_sim :: json where
  "ex_sim = JArr [JObj [(''scenario'', JStr ''Net Zero 2050''), (''financialImpact'', JNum 5),
                        (''sustainabilityImpact'', JNum 20), (''totalScore'', JNum 50)]]"

definition ex_rev :: json where
  "ex_rev = JObj [(''keyDrivers'', JArr [JStr ''carbon intensity'']),
                  (''ethicalConsiderations'', JStr ''none''),
                  (''suggestedNextSteps'', JStr ''request an energy audit''),
                  (''riskHighlights'', JArr [JObj [(''type'', JStr ''Warning''),
                                                   (''message'', JStr ''coal exposure'')]])]"

text \<open>The seven answers that carry run \<open>i\<close> from its start to its end.\<close>

definition ex_answers :: "nat \<Rightarrow> event list" where
  "ex_answers i =
     [Reply i Normalize (Parses ex_norm), Reply i Financial (Parses ex_fin),
      Reply i Sustainability (Parses ex_sust), Reply i Decision (Parses ex_dec),
      Reply i Uplift (Parses ex_up), Reply i Climate (Parses ex_sim),
      Reply i Review (Parses ex_rev)]"

section \<open>Predicates used in the statements\<close>

text \<open>
  The adapter calls a run has made, as its code determines them from the \<open>input\<close> of its
  closure and the values its awaits have bound so far.
\<close>

definition calls_of :: "run \<Rightarrow> (stage \<times> (js_error + request)) list" where
  "calls_of r =
     (Normalize, normalizeData (snapshot r)) #
     (case norm_l r of
        None \<Rightarrow> []
      | Some n \<Rightarrow>
          [(Financial, assessFinancialRisk n), (Sustainability, assessSustainabilityRisk n)] @
          (case (fin_l r, sust_l r) of
             (Some f, Some su) \<Rightarrow>
               (Decision, getDecision f su) #
               (case dec_l r of
                  None \<Rightarrow> []
                | Some d \<Rightarrow>
                    [(Uplift, planUplift su), (Climate, simulateClimate f su)] @
                    (case (up_l r, sim_l r) of
                       (Some u, Some si) \<Rightarrow> [(Review, getReview n f su d u si)]
                     | _ \<Rightarrow> []))
           | _ \<Rightarrow> []))"

text \<open>The constants bound at each await.\<close>

fun pc_ok :: "pc \<Rightarrow> run \<Rightarrow> bool" where
  "pc_ok AwaitNormalize r =
     (norm_l r = None \<and> fin_l r = None \<and> sust_l r = None \<and> dec_l r = None \<and>
      up_l r = None \<and> sim_l r = None \<and> rev_l r = None)"
| "pc_ok (AwaitRisk n a b) r =
     (norm_l r = Some n \<and> fin_l r = None \<and> sust_l r = None \<and> dec_l r = None \<and>
      up_l r = None \<and> sim_l r = None \<and> rev_l r = None)"
| "pc_ok (AwaitDecision n f su) r =
     (norm_l r = Some n \<and> fin_l r = Some f \<and> sust_l r = Some su \<and> dec_l r = None \<and>
      up_l r = None \<and> sim_l r = None \<and> rev_l r = None)"
| "pc_ok (AwaitUplift n f su d a b) r =
     (norm_l r = Some n \<and> fin_l r = Some f \<and> sust_l r = Some su \<and> dec_l r = Some d \<and>
      up_l r = None \<and> sim_l r = None \<and> rev_l r = None)"
| "pc_ok AwaitReview r =
     (norm_l r \<noteq> None \<and> fin_l r \<noteq> None \<and> sust_l r \<noteq> None \<and> dec_l r \<noteq> None \<and>
      up_l r \<noteq> None \<and> sim_l r \<noteq> None \<and> rev_l r = None)"
| "pc_ok Succeeded r =
     (norm_l r \<noteq> None \<and> fin_l r \<noteq> None \<and> sust_l r \<noteq> None \<and> dec_l r \<noteq> None \<and>
      up_l r \<noteq> None \<and> sim_l r \<noteq> None \<and> rev_l r \<noteq> None)"
| "pc_ok (Failed e) r = (rev_l r = None)"

text \<open>
  The invariant of a run: it has invoked exactly the calls above, in this order, the requests
  that left are theirs, its logs agree with where it is, and when one of the calls threw,
  the run is in its \<open>catch\<close> with the first error thrown.
\<close>

definition run_inv :: "run \<Rightarrow> bool" where
  "run_inv r =
     (started r = map fst (calls_of r) \<and> sent r = issued (calls_of r) \<and> pc_ok (pc r) r \<and>
      (case thrown (calls_of r) of None \<Rightarrow> True | Some e \<Rightarrow> pc r = Failed e))"


definition is_failed :: "pc \<Rightarrow> bool" where
  "is_failed p = (case p of Failed e \<Rightarrow> True | _ \<Rightarrow> False)"

text \<open>
  What run \<open>r\<close> had published before a step from \<open>s\<close> to \<open>s'\<close> is still there after it.
\<close>

definition retained :: "run \<Rightarrow> app \<Rightarrow> app \<Rightarrow> bool" where
  "retained r s s' =
     ((norm_l r \<noteq> None \<longrightarrow> normalized s' = normalized s) \<and>
      (fin_l r \<noteq> None \<longrightarrow> financialRisk s' = financialRisk s) \<and>
      (sust_l r \<noteq> None \<longrightarrow> sustainabilityRisk s' = sustainabilityRisk s) \<and>
      (dec_l r \<noteq> None \<longrightarrow> decision s' = decision s) \<and>
      (up_l r \<noteq> None \<longrightarrow> uplift s' = uplift s) \<and>
      (sim_l r \<noteq> None \<longrightarrow> simulations s' = simulations s) \<and>
      review s' = review s)"

text \<open>
  Across a step from \<open>s\<close> to \<open>s'\<close>, each artifact is what it was or is the value the
  stage of the run \<open>r'\<close> resolved with.
\<close>

definition kept_or_published :: "run \<Rightarrow> app \<Rightarrow> app \<Rightarrow> bool" where
  "kept_or_published r' s s' =
     ((normalized s' = normalized s \<or> norm_l r' = Some (normalized s')) \<and>
      (financialRisk s' = financialRisk s \<or> fin_l r' = Some (financialRisk s')) \<and>
      (sustainabilityRisk s' = sustainabilityRisk s \<or> sust_l r' = Some (sustainabilityRisk s')) \<and>
      (decision s' = decision s \<or> dec_l r' = Some (decision s')) \<and>
      (uplift s' = uplift s \<or> up_l r' = Some (uplift s')) \<and>
      (simulations s' = simulations s \<or> sim_l r' = Some (simulations s')) \<and>
      (review s' = review s \<or> rev_l r' = Some (review s')))"

text \<open>A step from \<open>r\<close> to \<open>r'\<close> of a run invokes the adapter of stage \<open>st\<close>.\<close>

definition newly_started :: "stage \<Rightarrow> run \<Rightarrow> run \<Rightarrow> bool" where
  "newly_started st r r' = (st \<in> set (started r') \<and> st \<notin> set (started r))"

text \<open>
  When the step invokes a later stage, the results of the stages before it are in the
  state the step leaves (\<open>setNormalized(norm)\<close> and the like have been called).
\<close>

definition published_before_start :: "run \<Rightarrow> run \<Rightarrow> app \<Rightarrow> bool" where
  "published_before_start r r' s' =
     ((newly_started Financial r r' \<or> newly_started Sustainability r r' \<longrightarrow>
         norm_l r' = Some (normalized s')) \<and>
      (newly_started Decision r r' \<longrightarrow>
         fin_l r' = Some (financialRisk s') \<and> sust_l r' = Some (sustainabilityRisk s')) \<and>
      (newly_started Uplift r r' \<or> newly_started Climate r r' \<longrightarrow>
         dec_l r' = Some (decision s')) \<and>
      (newly_started Review r r' \<longrightarrow>
         up_l r' = Some (uplift s') \<and> sim_l r' = Some (simulations s')))"

text \<open>When the step binds a local constant, it publishes the value.\<close>

definition published_when_bound :: "run \<Rightarrow> run \<Rightarrow> app \<Rightarrow> bool" where
  "published_when_bound r r' s' =
     ((norm_l r' \<noteq> norm_l r \<longrightarrow> norm_l r' = Some (normalized s')) \<and>
      (fin_l r' \<noteq> fin_l r \<longrightarrow> fin_l r' = Some (financialRisk s')) \<and>
      (sust_l r' \<noteq> sust_l r \<longrightarrow> sust_l r' = Some (sustainabilityRisk s')) \<and>
      (dec_l r' \<noteq> dec_l r \<longrightarrow> dec_l r' = Some (decision s')) \<and>
      (up_l r' \<noteq> up_l r \<longrightarrow> up_l r' = Some (uplift s')) \<and>
      (sim_l r' \<noteq> sim_l r \<longrightarrow> sim_l r' = Some (simulations s')) \<and>
      (rev_l r' \<noteq> rev_l r \<longrightarrow> rev_l r' = Some (review s')))"

text \<open>
  An interactive run whose financial stage has resolved while its sustainability stage is
  still pending.
\<close>

definition ex_risk_half :: "event list" where
  "ex_risk_half =
     [RunClick, Reply 0 Normalize (Parses ex_norm), Reply 0 Financial (Parses ex_fin)]"

text \<open>The seven artifacts the component shows.\<close>

definition artifacts :: "app \<Rightarrow> json \<times> json \<times> json \<times> json \<times> json \<times> json \<times> json" where
  "artifacts s = (normalized s, financialRisk s, sustainabilityRisk s, decision s, uplift s,
                  simulations s, review s)"

text \<open>
  A full interactive run, the way back to the input step, an edit of a slider and, once the
  debounce delay has passed, the background run it starts (run 1).
\<close>

definition ex_background :: "event list" where
  "ex_background =
     RunClick # ex_answers 0 @ [Prev, Change (SetCarbonIntensity 20), Elapse 800, TimerFires 1]"











text \<open>A decision payload with no \<open>status\<close>, and a run that receives it from \<open>getDecision\<close>.\<close>

definition ex_no_status :: json where
  "ex_no_status = JObj [(''greenCreditScore'', JNum 72), (''justification'', JStr ''strong''),
                        (''aprAdjustment'', JStr ''-0.25%'')]"

definition ex_decide_no_status :: "event list" where
  "ex_decide_no_status =
     [RunClick, Reply 0 Normalize (Parses ex_norm), Reply 0 Financial (Parses ex_fin),
      Reply 0 Sustainability (Parses ex_sust), Reply 0 Decision (Parses ex_no_status)]"

text \<open>The property \<open>P\<close> holds in the state each event of the list meets.\<close>

fun holds_before :: "(app \<Rightarrow> bool) \<Rightarrow> event list \<Rightarrow> app \<Rightarrow> bool" where
  "holds_before P [] s = True"
| "holds_before P (ev # evs) s = (P s \<and> holds_before P evs (react ev s))"

text \<open>No normalized data exists: \<open>normalized\<close> is \<open>null\<close> (or another falsy value).\<close>

definition no_data :: "app \<Rightarrow> bool" where
  "no_data s = (\<not> truthy (normalized s))"

definition no_background_run :: "app \<Rightarrow> bool" where
  "no_background_run s = list_all (\<lambda>r. \<not> isRealTime r) (runs s)"

text \<open>
  An interactive run whose \<open>normalizeData\<close> has resolved and which is still waiting for its
  risk stages, and an edit of a slider made meanwhile.
\<close>

definition ex_early_edit :: "event list" where
  "ex_early_edit = [RunClick, Reply 0 Normalize (Parses ex_norm), Change (SetCarbonIntensity 20)]"

text \<open>
  The debounce timer is single-flight: at most one timeout is pending, and it is the one the
  ref \<open>debounceTimer\<close> holds.
\<close>

definition single_flight :: "app \<Rightarrow> bool" where
  "single_flight s =
     (length (timers s) \<le> 1 \<and> list_all (\<lambda>t. debounceTimer s = Some (tid t)) (timers s))"

text \<open>
  A burst of slider edits: the first edit, then each further edit after a pause of \<open>d\<close>
  milliseconds, with an attempt to fire timeout \<open>j\<close> at the end of each pause.
\<close>

fun burst :: "edit \<Rightarrow> (nat \<times> nat \<times> edit) list \<Rightarrow> app \<Rightarrow> app" where
  "burst e [] s = react (Change e) s"
| "burst e ((d, j, e') # rest) s =
     burst e' rest (react (TimerFires j) (react (Elapse d) (react (Change e) s)))"

text \<open>
  Every edit of the burst changes a watched value, and every pause is shorter than the
  debounce delay of 800 ms.
\<close>

fun quick_edits :: "edit \<Rightarrow> (nat \<times> nat \<times> edit) list \<Rightarrow> BorrowerInput \<Rightarrow> bool" where
  "quick_edits e [] inp = (watched (apply_edit e inp) \<noteq> watched inp)"
| "quick_edits e ((d, j, e') # rest) inp =
     (watched (apply_edit e inp) \<noteq> watched inp \<and> d < 800 \<and>
      quick_edits e' rest (apply_edit e inp))"

text \<open>What the debounce leaves pending after an edit at a time when normalized data exists.\<close>

definition fresh_timeout :: "app \<Rightarrow> timeout" where
  "fresh_timeout s = \<lparr> tid = next_timer s - 1, due = now s + 800, closure_input = input s \<rparr>"

text \<open>A run as \<open>runAnalysis\<close> leaves it: \<open>normalizeData(input)\<close> called, its answer awaited.\<close>

definition started_run :: "bool \<Rightarrow> BorrowerInput \<Rightarrow> run" where
  "started_run rt inp = (new_run rt inp)\<lparr> started := [Normalize], sent := [NormalizeReq inp] \<rparr>"

text \<open>A slider is moved three times within the delay, after a first full run.\<close>

definition ex_sliders :: "(nat \<times> nat \<times> edit) list" where
  "ex_sliders = [(100, 1, SetCarbonIntensity 30), (200, 2, SetRevenue 6000000)]"

definition ex_first_run :: "event list" where
  "ex_first_run = RunClick # ex_answers 0 @ [Prev]"

text \<open>The answers the oracle gives to run \<open>i\<close> in the course of the events, in order.\<close>

fun replies_to :: "nat \<Rightarrow> event list \<Rightarrow> (stage \<times> reply) list" where
  "replies_to i [] = []"
| "replies_to i (Reply j st rep # evs) =
     (if j = i then (st, rep) # replies_to i evs else replies_to i evs)"
| "replies_to i (ev # evs) = replies_to i evs"

text \<open>
  A slider edit, then, within the delay, an edit of the industry (not a watched field), then
  the timeout fires: run 1.
\<close>

definition ex_industry_edit :: "event list" where
  "ex_industry_edit =
     ex_first_run @ [Change (SetCarbonIntensity 20), Elapse 100, Change (SetIndustry ''Energy''),
                     Elapse 700, TimerFires 1]"

text \<open>The place of a stage in the dependency order of a run (lines 60 to 81).\<close>

fun stage_rank :: "stage \<Rightarrow> nat" where
  "stage_rank Normalize = 0"
| "stage_rank Financial = 1"
| "stage_rank Sustainability = 1"
| "stage_rank Decision = 2"
| "stage_rank Uplift = 3"
| "stage_rank Climate = 3"
| "stage_rank Review = 4"

text \<open>
  An interactive run whose financial stage has resolved with \<open>null\<close> while its
  sustainability stage is still pending.
\<close>

definition ex_null_risk :: "event list" where
  "ex_null_risk = [RunClick, Reply 0 Normalize (Parses ex_norm), Reply 0 Financial (Parses JNull)]"

text \<open>
  What a step makes of an artifact: the value its constant is bound to, when the step binds
  the constant, and what it was otherwise.
\<close>

definition set_by :: "json option \<Rightarrow> json option \<Rightarrow> json \<Rightarrow> json" where
  "set_by before after old = (case (before, after) of (None, Some w) \<Rightarrow> w | _ \<Rightarrow> old)"

definition published_exactly :: "run \<Rightarrow> run \<Rightarrow> app \<Rightarrow> app \<Rightarrow> bool" where
  "published_exactly r r' s s' =
     (normalized s' = set_by (norm_l r) (norm_l r') (normalized s) \<and>
      financialRisk s' = set_by (fin_l r) (fin_l r') (financialRisk s) \<and>
      sustainabilityRisk s' = set_by (sust_l r) (sust_l r') (sustainabilityRisk s) \<and>
      decision s' = set_by (dec_l r) (dec_l r') (decision s) \<and>
      uplift s' = set_by (up_l r) (up_l r') (uplift s) \<and>
      simulations s' = set_by (sim_l r) (sim_l r') (simulations s) \<and>
      review s' = set_by (rev_l r) (rev_l r') (review s))"

text \<open>
  After a first full run and the way back to the input step: a slider is moved, the button
  is clicked within the debounce delay (run 1, interactive), and the timeout fires while
  that run still waits for \<open>normalizeData\<close> (run 2, background).
\<close>

definition ex_click_then_background :: "event list" where
  "ex_click_then_background =
     ex_first_run @ [Change (SetCarbonIntensity 20), RunClick, Elapse 800, TimerFires 1]"

text \<open>
  What a run at \<open>p\<close> makes of the value \<open>v\<close> that the adapter of the stage \<open>st\<close> it waits
  for returns: the value is bound to the stage's constant and published as it is, or, while
  the other promise of a \<open>Promise.all\<close> is pending, held as it is until that one resolves.
\<close>

fun handed_over :: "pc \<Rightarrow> stage \<Rightarrow> json \<Rightarrow> run \<Rightarrow> app \<Rightarrow> bool" where
  "handed_over AwaitNormalize st v r' s' = (norm_l r' = Some v \<and> normalized s' = v)"
| "handed_over (AwaitRisk n a b) st v r' s' =
     (if st = Financial then
        (case b of
           None \<Rightarrow> pc r' = AwaitRisk n (Some v) None
         | Some su \<Rightarrow> fin_l r' = Some v \<and> financialRisk s' = v \<and>
                      sust_l r' = Some su \<and> sustainabilityRisk s' = su)
      else
        (case a of
           None \<Rightarrow> pc r' = AwaitRisk n None (Some v)
         | Some f \<Rightarrow> fin_l r' = Some f \<and> financialRisk s' = f \<and>
                     sust_l r' = Some v \<and> sustainabilityRisk s' = v))"
| "handed_over (AwaitDecision n f su) st v r' s' = (dec_l r' = Some v \<and> decision s' = v)"
| "handed_over (AwaitUplift n f su d a b) st v r' s' =
     (if st = Uplift then
        (case b of
           None \<Rightarrow> pc r' = AwaitUplift n f su d (Some v) None
         | Some si \<Rightarrow> up_l r' = Some v \<and> uplift s' = v \<and>
                      sim_l r' = Some si \<and> simulations s' = si)
      else
        (case a of
           None \<Rightarrow> pc r' = AwaitUplift n f su d None (Some v)
         | Some u \<Rightarrow> up_l r' = Some u \<and> uplift s' = u \<and>
                     sim_l r' = Some v \<and> simulations s' = v))"
| "handed_over AwaitReview st v r' s' = (rev_l r' = Some v \<and> review s' = v \<and> pc r' = Succeeded)"
| "handed_over Succeeded st v r' s' = False"
| "handed_over (Failed e) st v r' s' = False"

text \<open>
  A result whose score cannot be put into a prompt: the result is \<open>null\<close>, or it is an
  object whose member \<open>score\<close> cannot be converted to a string.
\<close>

definition unreadable_score :: "json \<Rightarrow> bool" where
  "unreadable_score x =
     (case x of
        JNull \<Rightarrow> True
      | JObj kvs \<Rightarrow> (case map_of (rev kvs) ''score'' of None \<Rightarrow> False | Some y \<Rightarrow> \<not> convertible y)
      | _ \<Rightarrow> False)"

text \<open>
  The answers with which a run at \<open>p\<close> fails although the text parsed: \<open>null\<close> from
  \<open>normalizeData\<close>, and a pair of risk results of which one has no readable score.
\<close>

fun prompt_fails :: "pc \<Rightarrow> stage \<Rightarrow> json \<Rightarrow> bool" where
  "prompt_fails AwaitNormalize st v = (v = JNull)"
| "prompt_fails (AwaitRisk n a b) st v =
     (if st = Financial
      then (case b of None \<Rightarrow> False | Some su \<Rightarrow> unreadable_score v \<or> unreadable_score su)
      else (case a of None \<Rightarrow> False | Some f \<Rightarrow> unreadable_score f \<or> unreadable_score v))"
| "prompt_fails p st v = False"

text \<open>
  A sustainability result whose \<open>score\<close> is an object with a member named \<open>toString\<close>,
  and a result of \<open>normalizeData\<close> that is a string.
\<close>

definition ex_odd_score :: json where
  "ex_odd_score = JObj [(''score'', JObj [(''toString'', JNum 1)]),
                        (''impactDescription'', JStr ''coal heavy grid'')]"

definition ex_not_an_object :: json where
  "ex_not_an_object = JStr ''n/a''"

section \<open>Basic facts about one step\<close>

lemmas ex_defs = ex_norm_def ex_fin_def ex_sust_def ex_dec_def ex_up_def ex_sim_def ex_rev_def
  ex_answers_def

lemmas resume_defs = deliver_def after_normalize_def join_risk_def after_decision_def
  join_uplift_def after_review_def launch_def catch_finally_def Let_def

lemmas adapter_defs = normalizeData_def assessFinancialRisk_def assessSustainabilityRisk_def
  getDecision_def planUplift_def simulateClimate_def getReview_def interpolate_score_def

lemmas ui_defs = handleInputChange_def debounce_effect_def clear_pending_def clearTimeout_def
  runAnalysis_def nextStep_def prevStep_def

lemmas step_defs = AppStep_Input_def AppStep_Normalization_def AppStep_Review_def

lemma react_Reply:
  "react (Reply i st rep) s =
     (if i < length (runs s)
      then (snd (deliver st rep (runs s ! i) s))
             \<lparr> runs := (runs s)[i := fst (deliver st rep (runs s ! i) s)] \<rparr>
      else s)"
  by (simp add: split_def Let_def)

lemma deliver_frame:
  "timers (snd (deliver st rep r s)) = timers s \<and>
   debounceTimer (snd (deliver st rep r s)) = debounceTimer s \<and>
   next_timer (snd (deliver st rep r s)) = next_timer s \<and>
   now (snd (deliver st rep r s)) = now s \<and>
   input (snd (deliver st rep r s)) = input s \<and>
   runs (snd (deliver st rep r s)) = runs s"
  by (cases "pc r") (auto simp: resume_defs split: sum.splits option.splits)

lemma issued_Cons: "issued ((st, x) # cs) = (case x of Inl e \<Rightarrow> issued cs | Inr q \<Rightarrow> q # issued cs)"
  by (cases x) simp_all

lemma thrown_Cons: "thrown ((st, x) # cs) = (case x of Inl e \<Rightarrow> Some e | Inr q \<Rightarrow> thrown cs)"
  by (cases x) simp_all

lemma run_invD:
  "run_inv r \<Longrightarrow> started r = map fst (calls_of r) \<and> sent r = issued (calls_of r) \<and> pc_ok (pc r) r"
  by (simp add: run_inv_def)

lemma awaits_not_thrown: "run_inv r \<Longrightarrow> awaits (pc r) st \<Longrightarrow> thrown (calls_of r) = None"
  by (cases "thrown (calls_of r)") (auto simp: run_inv_def)

lemma thrown_append: "thrown (xs @ ys) = (case thrown xs of None \<Rightarrow> thrown ys | Some e \<Rightarrow> Some e)"
  by (induction xs rule: thrown.induct) simp_all

lemma issued_append: "issued (xs @ ys) = issued xs @ issued ys"
  by (induction xs rule: issued.induct) simp_all

lemma calls_of_log [simp]:
  "calls_of (r\<lparr> started := a \<rparr>) = calls_of r"
  "calls_of (r\<lparr> sent := b \<rparr>) = calls_of r"
  "calls_of (r\<lparr> pc := c \<rparr>) = calls_of r"
  "calls_of (r\<lparr> rev_l := x \<rparr>) = calls_of r"
  by (simp_all add: calls_of_def cong: option.case_cong prod.case_cong)

lemma pc_ok_log [simp]:
  "pc_ok p (r\<lparr> started := a \<rparr>) = pc_ok p r"
  "pc_ok p (r\<lparr> sent := b \<rparr>) = pc_ok p r"
  "pc_ok p (r\<lparr> pc := c \<rparr>) = pc_ok p r"
  by (cases p; simp)+

lemma launch_run:
  "fst (launch cs p r s) =
     r\<lparr> started := started r @ map fst cs, sent := sent r @ issued cs,
        pc := (case thrown cs of None \<Rightarrow> p | Some e \<Rightarrow> Failed e) \<rparr>"
  by (simp add: launch_def Let_def split: option.splits)

lemma launch_run_inv:
  assumes "started r = map fst cs0" "sent r = issued cs0" "thrown cs0 = None"
    and "calls_of r = cs0 @ cs" and "pc_ok p r" and "rev_l r = None"
  shows "run_inv (fst (launch cs p r s))"
  using assms
  by (cases "thrown cs") (simp_all add: run_inv_def launch_run thrown_append issued_append)

lemma refused_run_inv:
  assumes "run_inv r" "awaits (pc r) st"
  shows "run_inv (r\<lparr> pc := Failed e \<rparr>)"
proof -
  have "rev_l r = None"
    using assms by (cases "pc r") (simp_all add: run_inv_def)
  then show ?thesis
    using assms awaits_not_thrown [OF assms] by (simp add: run_inv_def)
qed

lemma resolved_run_inv:
  assumes "run_inv r" "awaits (pc r) st"
  shows "run_inv (fst (on_resolve (pc r) st v r s))"
proof -
  note nt = awaits_not_thrown [OF assms]
  note d = run_invD [OF assms(1)]
  show ?thesis
  proof (cases "pc r")
    case AwaitNormalize
    then show ?thesis
      using d nt unfolding on_resolve.simps AwaitNormalize after_normalize_def
      by (intro launch_run_inv [where ?cs0.0 = "calls_of r"]) (simp_all add: calls_of_def)
  next
    case (AwaitRisk n a b)
    then show ?thesis
      using d nt assms(2)
      by (auto simp: join_risk_def split: option.splits
               intro!: launch_run_inv [where ?cs0.0 = "calls_of r"])
         (simp_all add: calls_of_def run_inv_def)
  next
    case (AwaitDecision n f su)
    then show ?thesis
      using d nt unfolding on_resolve.simps AwaitDecision after_decision_def
      by (intro launch_run_inv [where ?cs0.0 = "calls_of r"]) (simp_all add: calls_of_def)
  next
    case (AwaitUplift n f su dd a b)
    then show ?thesis
      using d nt assms(2)
      by (auto simp: join_uplift_def split: option.splits
               intro!: launch_run_inv [where ?cs0.0 = "calls_of r"])
         (simp_all add: calls_of_def run_inv_def)
  next
    case AwaitReview
    then show ?thesis
      using d nt by (simp add: after_review_def run_inv_def)
  qed (use assms in simp_all)
qed

lemma deliver_run_inv: "run_inv r \<Longrightarrow> run_inv (fst (deliver st rep r s))"
  by (cases "parse_response rep")
     (simp_all add: deliver_def refused_run_inv resolved_run_inv)

lemma new_run_inv: "run_inv (fst (launch [(Normalize, normalizeData inp)] AwaitNormalize (new_run rt inp) s))"
  by (simp add: run_inv_def calls_of_def launch_def new_run_def normalizeData_def)

section \<open>The runs\<close>

lemma runAnalysis_runs:
  "runs (runAnalysis rt inp s) =
     runs s @ [fst (launch [(Normalize, normalizeData inp)] AwaitNormalize (new_run rt inp)
                      (s\<lparr> loading := (if rt then loading s else True), realTimeUpdate := True \<rparr>))]"
  by (simp add: runAnalysis_def launch_def normalizeData_def Let_def)

lemma handleInputChange_runs: "runs (handleInputChange e s) = runs s"
  by (simp add: ui_defs Let_def split: option.splits)

text \<open>How an event changes the list of runs: it leaves it, or appends a fresh run, or
  lets the oracle answer one run.\<close>

lemma react_runs:
  "runs (react ev s) = runs s \<or>
   (\<exists>rt inp s1. runs (react ev s) =
       runs s @ [fst (launch [(Normalize, normalizeData inp)] AwaitNormalize (new_run rt inp) s1)]) \<or>
   (\<exists>i st rep. ev = Reply i st rep \<and> i < length (runs s) \<and>
       runs (react ev s) = (runs s)[i := fst (deliver st rep (runs s ! i) s)])"
proof (cases ev)
  case (Change e)
  then show ?thesis by (simp add: handleInputChange_runs)
next
  case RunClick
  then show ?thesis by (auto simp: runAnalysis_runs)
next
  case (TimerFires i)
  then show ?thesis by (auto simp: runAnalysis_runs split: list.splits)
next
  case (Reply i st rep)
  then show ?thesis using deliver_frame [of st rep "runs s ! i" s]
    by (auto simp: react_Reply simp del: react.simps)
qed (auto simp: ui_defs split: option.splits)

lemma react_runs_inv:
  assumes "list_all run_inv (runs s)"
  shows "list_all run_inv (runs (react ev s))"
proof -
  consider (same) "runs (react ev s) = runs s"
    | (fresh) rt inp s1 where "runs (react ev s) =
        runs s @ [fst (launch [(Normalize, normalizeData inp)] AwaitNormalize (new_run rt inp) s1)]"
    | (answer) i st rep where "i < length (runs s)"
        "runs (react ev s) = (runs s)[i := fst (deliver st rep (runs s ! i) s)]"
    using react_runs [of ev s] by blast
  then show ?thesis
  proof cases
    case same
    then show ?thesis using assms by simp
  next
    case fresh
    then show ?thesis using assms by (simp add: new_run_inv)
  next
    case answer
    have "run_inv (runs s ! i)"
      using assms answer(1) by (simp add: list_all_length)
    then have "run_inv (fst (deliver st rep (runs s ! i) s))"
      by (rule deliver_run_inv)
    then show ?thesis
      using assms answer by (simp add: list_all_length nth_list_update)
  qed
qed

lemma exec_runs_inv: "list_all run_inv (runs s) \<Longrightarrow> list_all run_inv (runs (exec evs s))"
  by (induction evs arbitrary: s) (simp_all add: react_runs_inv)

lemma reachable_runs_inv: "list_all run_inv (runs (exec evs init))"
  by (rule exec_runs_inv) (simp add: init_def)


section \<open>The wizard step\<close>

lemma deliver_step:
  "step (snd (deliver st rep r s)) = step s \<or>
   step (snd (deliver st rep r s)) = AppStep_Normalization"
  by (cases "pc r") (auto simp: resume_defs split: sum.splits option.splits)

lemma react_step:
  "step (react ev s) = step s \<or> step (react ev s) = min (step s + 1) AppStep_Review \<or>
   step (react ev s) = max (step s - 1) AppStep_Input \<or>
   step (react ev s) = AppStep_Normalization"
proof (cases ev)
  case (Reply i st rep)
  then show ?thesis using deliver_step [of st rep "runs s ! i" s]
    by (auto simp: react_Reply simp del: react.simps)
qed (auto simp: ui_defs launch_def normalizeData_def Let_def split: option.splits list.splits)

lemma react_step_range:
  "1 \<le> step s \<and> step s \<le> 8 \<Longrightarrow> 1 \<le> step (react ev s) \<and> step (react ev s) \<le> 8"
  using react_step [of ev s] by (auto simp: step_defs)

lemma exec_step_range:
  "1 \<le> step s \<and> step s \<le> 8 \<Longrightarrow> 1 \<le> step (exec evs s) \<and> step (exec evs s) \<le> 8"
proof (induction evs arbitrary: s)
  case Nil
  then show ?case by simp
next
  case (Cons ev evs)
  then show ?case using react_step_range [of s ev] by simp
qed

section \<open>What one answer does\<close>

lemma react_other_run:
  assumes "i < length (runs s)" "runs (react ev s) ! i \<noteq> runs s ! i"
  shows "\<exists>st rep. ev = Reply i st rep"
proof -
  consider (same) "runs (react ev s) = runs s"
    | (fresh) rt inp s1 where "runs (react ev s) =
        runs s @ [fst (launch [(Normalize, normalizeData inp)] AwaitNormalize (new_run rt inp) s1)]"
    | (answer) j st rep where "ev = Reply j st rep" "j < length (runs s)"
        "runs (react ev s) = (runs s)[j := fst (deliver st rep (runs s ! j) s)]"
    using react_runs [of ev s] by blast
  then show ?thesis
  proof cases
    case same
    then show ?thesis using assms by simp
  next
    case fresh
    then show ?thesis using assms by (simp add: nth_append)
  next
    case answer
    then show ?thesis using assms by (cases "i = j") auto
  qed
qed

lemma react_length: "length (runs s) \<le> length (runs (react ev s))"
  using react_runs [of ev s] by auto

lemma deliver_finished:
  "\<not> awaits (pc r) st \<Longrightarrow> deliver st rep r s = (r, s)"
  by (simp add: deliver_def)

lemma react_finished_run:
  assumes "i < length (runs s)" "\<forall>st. \<not> awaits (pc (runs s ! i)) st"
  shows "runs (react ev s) ! i = runs s ! i"
proof (rule ccontr)
  assume "runs (react ev s) ! i \<noteq> runs s ! i"
  then obtain st rep where "ev = Reply i st rep"
    using react_other_run [OF assms(1)] by blast
  then have "runs (react ev s) ! i = runs s ! i"
    using assms by (simp add: react_Reply deliver_finished deliver_frame del: react.simps)
  then show False using \<open>runs (react ev s) ! i \<noteq> runs s ! i\<close> by simp
qed

lemma exec_finished_run:
  assumes "i < length (runs s)" "\<forall>st. \<not> awaits (pc (runs s ! i)) st"
  shows "i < length (runs (exec evs s)) \<and> runs (exec evs s) ! i = runs s ! i"
  using assms
proof (induction evs arbitrary: s)
  case Nil
  then show ?case by simp
next
  case (Cons ev evs)
  have same: "runs (react ev s) ! i = runs s ! i"
    using Cons.prems by (rule react_finished_run)
  have len: "i < length (runs (react ev s))"
    using Cons.prems(1) react_length [of s ev] by simp
  show ?case
    using Cons.IH [OF len] same Cons.prems(2) by simp
qed

lemma deliver_failing:
  assumes "\<not> is_failed (pc r)" "pc (fst (deliver st rep r s)) = Failed e"
  shows "step (snd (deliver st rep r s)) = step s \<and>
         console (snd (deliver st rep r s)) = e # console s \<and>
         alerts (snd (deliver st rep r s)) = (if isRealTime r then alerts s else alerts s + 1) \<and>
         \<not> realTimeUpdate (snd (deliver st rep r s)) \<and>
         \<not> loading (snd (deliver st rep r s))"
  using assms
  by (cases "pc r")
     (auto simp: is_failed_def resume_defs thrown_Cons split: sum.splits option.splits if_splits)

lemma deliver_failing_retained:
  assumes "run_inv r" "\<not> is_failed (pc r)" "pc (fst (deliver st rep r s)) = Failed e"
  shows "retained r s (snd (deliver st rep r s))"
  using run_invD [OF assms(1)] assms(2,3)
  by (cases "pc r")
     (auto simp: is_failed_def retained_def resume_defs thrown_Cons split: sum.splits option.splits if_splits)

lemma run_inv_distinct: "run_inv r \<Longrightarrow> distinct (started r)"
  by (drule run_invD) (auto simp: calls_of_def split: option.splits)


lemma deliver_kept_or_published:
  "kept_or_published (fst (deliver st rep r s)) s (snd (deliver st rep r s))"
  by (cases "pc r")
     (auto simp: kept_or_published_def resume_defs thrown_Cons split: sum.splits option.splits if_splits)

lemma deliver_publishes:
  "published_before_start r (fst (deliver st rep r s)) (snd (deliver st rep r s))"
  by (cases "pc r")
     (auto simp: published_before_start_def newly_started_def resume_defs thrown_Cons
           split: sum.splits option.splits if_splits)

lemma deliver_bound:
  "published_when_bound r (fst (deliver st rep r s)) (snd (deliver st rep r s))"
  by (cases "pc r")
     (auto simp: published_when_bound_def resume_defs thrown_Cons
           split: sum.splits option.splits if_splits)

lemma react_Reply_fields:
  assumes "i < length (runs s)"
  shows "runs (react (Reply i st rep) s) ! i = fst (deliver st rep (runs s ! i) s)"
    and "step (react (Reply i st rep) s) = step (snd (deliver st rep (runs s ! i) s))"
    and "console (react (Reply i st rep) s) = console (snd (deliver st rep (runs s ! i) s))"
    and "alerts (react (Reply i st rep) s) = alerts (snd (deliver st rep (runs s ! i) s))"
    and "loading (react (Reply i st rep) s) = loading (snd (deliver st rep (runs s ! i) s))"
    and "realTimeUpdate (react (Reply i st rep) s) = realTimeUpdate (snd (deliver st rep (runs s ! i) s))"
    and "normalized (react (Reply i st rep) s) = normalized (snd (deliver st rep (runs s ! i) s))"
    and "financialRisk (react (Reply i st rep) s) = financialRisk (snd (deliver st rep (runs s ! i) s))"
    and "sustainabilityRisk (react (Reply i st rep) s) = sustainabilityRisk (snd (deliver st rep (runs s ! i) s))"
    and "decision (react (Reply i st rep) s) = decision (snd (deliver st rep (runs s ! i) s))"
    and "uplift (react (Reply i st rep) s) = uplift (snd (deliver st rep (runs s ! i) s))"
    and "simulations (react (Reply i st rep) s) = simulations (snd (deliver st rep (runs s ! i) s))"
    and "review (react (Reply i st rep) s) = review (snd (deliver st rep (runs s ! i) s))"
    and "timers (react (Reply i st rep) s) = timers s"
    and "length (runs (react (Reply i st rep) s)) = length (runs s)"
  using assms deliver_frame [of st rep "runs s ! i" s]
  by (simp_all add: react_Reply del: react.simps)

lemmas eval_defs = ex_defs init_def init_input_def step_defs ui_defs resume_defs adapter_defs
  new_run_def watched_def

section \<open>Dependency order\<close>



section \<open>Failure of a stage\<close>

lemma member_error: "member v k = Inl e \<Longrightarrow> e = TypeError \<and> v = JNull"
  by (cases v) simp_all

lemma interpolate_score_error: "interpolate_score v = Inl e \<Longrightarrow> e = TypeError"
  by (auto simp: interpolate_score_def split: sum.splits option.splits if_splits dest: member_error)

lemma adapter_error:
  "assessFinancialRisk n = Inl e \<Longrightarrow> e = TypeError"
  "assessSustainabilityRisk n = Inl e \<Longrightarrow> e = TypeError"
  "getDecision f su = Inl e \<Longrightarrow> e = TypeError"
  "planUplift su = Inl e \<Longrightarrow> e = TypeError"
  "simulateClimate f su = Inl e \<Longrightarrow> e = TypeError"
  by (auto simp: assessFinancialRisk_def assessSustainabilityRisk_def
        getDecision_def planUplift_def simulateClimate_def
      split: sum.splits dest: member_error interpolate_score_error)

lemma decided_scores:
  "getDecision f su = Inr q \<Longrightarrow>
     (\<exists>q1. planUplift su = Inr q1) \<and> (\<exists>q2. simulateClimate f su = Inr q2)"
  by (auto simp: getDecision_def planUplift_def simulateClimate_def split: sum.splits)

lemma calls_of_error: "(st, Inl e) \<in> set (calls_of r) \<Longrightarrow> e = TypeError"
  by (auto simp: calls_of_def normalizeData_def getReview_def split: option.splits
           dest: adapter_error adapter_error [OF sym])

lemma thrown_member: "thrown cs = Some e \<Longrightarrow> \<exists>st. (st, Inl e) \<in> set cs"
  by (induction cs rule: thrown.induct) auto

lemma member_thrown: "(st, Inl e) \<in> set cs \<Longrightarrow> \<exists>e'. thrown cs = Some e'"
  by (induction cs rule: thrown.induct) auto

lemma thrown_None: "thrown cs = None \<Longrightarrow> (st, Inl e) \<notin> set cs"
  using member_thrown [of st e cs] by auto

lemma run_inv_thrown:
  assumes "run_inv r" "(st, Inl e) \<in> set (calls_of r)"
  shows "pc r = Failed e" "e = TypeError"
proof -
  obtain e' where t: "thrown (calls_of r) = Some e'"
    using member_thrown [OF assms(2)] by blast
  then obtain st' where "(st', Inl e') \<in> set (calls_of r)"
    using thrown_member by blast
  then have "e' = TypeError" by (rule calls_of_error)
  moreover show "e = TypeError" using assms(2) by (rule calls_of_error)
  ultimately show "pc r = Failed e"
    using assms(1) t by (simp add: run_inv_def)
qed

lemma awaits_rank:
  assumes "run_inv r" "awaits (pc r) st"
  shows "list_all (\<lambda>x. stage_rank x \<le> stage_rank st) (started r)"
  using run_invD [OF assms(1)] assms(2)
  by (cases "pc r") (auto simp: calls_of_def split: option.splits)

lemma deliver_refusal:
  assumes "awaits (pc r) st" "parse_response rep = Inl e"
  shows "deliver st rep r s = (r\<lparr> pc := Failed e \<rparr>, catch_finally (isRealTime r) e s)"
  using assms by (simp add: deliver_def)

lemma deliver_thrown_rank:
  assumes "run_inv r" "awaits (pc r) st"
    and "(st', Inl e) \<in> set (calls_of (fst (deliver st (Parses v) r s)))"
  shows "list_all (\<lambda>x. stage_rank x \<le> stage_rank st') (started (fst (deliver st (Parses v) r s))) \<and>
         (st = Normalize \<or> st = Financial \<or> st = Sustainability)"
proof -
  note nt = awaits_not_thrown [OF assms(1,2)]
  note d = run_invD [OF assms(1)]
  show ?thesis
  proof (cases "pc r")
    case AwaitNormalize
    then show ?thesis
      using d nt assms(2,3)
      by (auto simp: deliver_def after_normalize_def launch_run calls_of_def normalizeData_def getReview_def)
  next
    case (AwaitRisk n a b)
    then show ?thesis
      using d nt assms(2,3)
      by (auto simp: deliver_def join_risk_def launch_run calls_of_def normalizeData_def getReview_def thrown_Cons
               split: option.splits sum.splits)
  next
    case (AwaitDecision n f su)
    then show ?thesis
      using d nt assms(2,3)
      by (auto simp: deliver_def after_decision_def launch_run calls_of_def normalizeData_def getReview_def thrown_Cons
               split: option.splits sum.splits dest: decided_scores)
  next
    case (AwaitUplift n f su dd a b)
    then show ?thesis
      using d nt assms(2,3)
      by (auto simp: deliver_def join_uplift_def launch_run calls_of_def normalizeData_def getReview_def thrown_Cons
               split: option.splits sum.splits dest: decided_scores)
  next
    case AwaitReview
    then show ?thesis
      using d nt assms(2,3)
      by (auto simp: deliver_def after_review_def calls_of_def normalizeData_def getReview_def thrown_Cons
               split: option.splits sum.splits dest: decided_scores)
  qed (use assms in simp_all)
qed

lemma react_finished_noop:
  assumes "i < length (runs s)" "\<forall>st. \<not> awaits (pc (runs s ! i)) st"
  shows "react (Reply i st rep) s = s"
  using assms by (simp add: react_Reply deliver_finished del: react.simps)

text \<open>
  Claim C3. Take a state the component can reach and a run \<open>i\<close> in it that waits for the
  answer to stage \<open>st\<close>. A stage of the run fails in one of two ways. Either the oracle
  refuses the call of \<open>st\<close> (the call rejects, or its text does not parse): then the run is
  in its \<open>catch\<close> with that error, and it has invoked and sent nothing more than before.
  Or the answer parses and the adapter of a stage \<open>st'\<close>, invoked on it in the same step,
  throws while it builds its prompt: then the run is in its \<open>catch\<close> with that error. In both
  cases the run is halted for good at the stage that failed: the stages it has invoked are
  that stage and stages that do not come after it, none of them twice; whatever happens
  later, its record (the adapters invoked, the requests sent) stays as it is, and an answer
  that arrives for it changes nothing at all; the failure starts no other run and schedules
  none; the error reaches the \<open>catch\<close> block, which logs it. What the run had published
  from its earlier stages is untouched by the step in which it fails: a refusal leaves all
  seven artifacts as they were, and when an adapter throws, every artifact is what it was
  or the result this run has just bound.
\<close>

theorem failure_halts_run:
  fixes evs later :: "event list" and i :: nat and st :: stage and rep rep_late :: reply and v :: json
  defines "s0 \<equiv> exec evs init"
  defines "sa \<equiv> react (Reply i st rep) (exec evs init)"
  defines "sb \<equiv> react (Reply i st (Parses v)) (exec evs init)"
  assumes "i < length (runs s0)" and "awaits (pc (runs s0 ! i)) st"
  shows
    "(parse_response rep = Inl e \<longrightarrow>
        pc (runs sa ! i) = Failed e \<and>
        started (runs sa ! i) = started (runs s0 ! i) \<and>
        sent (runs sa ! i) = sent (runs s0 ! i) \<and>
        list_all (\<lambda>x. stage_rank x \<le> stage_rank st) (started (runs sa ! i)) \<and>
        distinct (started (runs sa ! i)) \<and>
        runs (exec later sa) ! i = runs sa ! i \<and>
        react (Reply i st_late rep_late) (exec later sa) = exec later sa \<and>
        length (runs sa) = length (runs s0) \<and>
        timers sa = timers s0 \<and>
        console sa = e # console s0 \<and>
        artifacts sa = artifacts s0) \<and>
     ((st', Inl e') \<in> set (calls_of (runs sb ! i)) \<longrightarrow>
        pc (runs sb ! i) = Failed e' \<and>
        list_all (\<lambda>x. stage_rank x \<le> stage_rank st') (started (runs sb ! i)) \<and>
        distinct (started (runs sb ! i)) \<and>
        runs (exec later sb) ! i = runs sb ! i \<and>
        react (Reply i st_late rep_late) (exec later sb) = exec later sb \<and>
        length (runs sb) = length (runs s0) \<and>
        timers sb = timers s0 \<and>
        console sb = e' # console s0 \<and>
        retained (runs s0 ! i) s0 sb \<and>
        kept_or_published (runs sb ! i) s0 sb)"
proof -
  let ?old = "runs s0 ! i"
  have len: "i < length (runs s0)" and aw: "awaits (pc ?old) st"
    using assms by simp_all
  have inv: "run_inv ?old"
    using reachable_runs_inv [of evs] len by (simp add: s0_def list_all_length)
  have nf: "\<not> is_failed (pc ?old)"
    using aw by (cases "pc ?old") (simp_all add: is_failed_def)
  have halted: "runs (exec later s) ! i = runs s ! i \<and> react (Reply i st_late rep_late) (exec later s) = exec later s"
    if "i < length (runs s)" "pc (runs s ! i) = Failed x" for s x
  proof -
    have idle: "\<forall>st. \<not> awaits (pc (runs s ! i)) st"
      using that(2) by simp
    have fin: "i < length (runs (exec later s)) \<and> runs (exec later s) ! i = runs s ! i"
      using that(1) idle by (rule exec_finished_run)
    then have "react (Reply i st_late rep_late) (exec later s) = exec later s"
      using idle by (intro react_finished_noop) simp_all
    then show ?thesis using fin by simp
  qed
  have refusal: "pc (runs sa ! i) = Failed e \<and>
        started (runs sa ! i) = started ?old \<and>
        sent (runs sa ! i) = sent ?old \<and>
        list_all (\<lambda>x. stage_rank x \<le> stage_rank st) (started (runs sa ! i)) \<and>
        distinct (started (runs sa ! i)) \<and>
        runs (exec later sa) ! i = runs sa ! i \<and>
        react (Reply i st_late rep_late) (exec later sa) = exec later sa \<and>
        length (runs sa) = length (runs s0) \<and>
        timers sa = timers s0 \<and>
        console sa = e # console s0 \<and>
        artifacts sa = artifacts s0"
    if p: "parse_response rep = Inl e"
  proof -
    have r: "runs sa ! i = ?old\<lparr> pc := Failed e \<rparr>"
      using len deliver_refusal [OF aw p, of s0]
      unfolding sa_def s0_def by (simp add: react_Reply_fields del: react.simps)
    have shape: "length (runs sa) = length (runs s0)" "timers sa = timers s0"
      using len unfolding sa_def s0_def by (simp_all add: react_Reply_fields del: react.simps)
    have art: "artifacts sa = artifacts s0" "console sa = e # console s0"
      using len deliver_refusal [OF aw p, of s0]
      unfolding sa_def s0_def
      by (simp_all add: artifacts_def react_Reply_fields catch_finally_def del: react.simps)
    have "i < length (runs sa)" "pc (runs sa ! i) = Failed e"
      using len shape r by simp_all
    then show ?thesis
      using halted [of sa e] r shape art awaits_rank [OF inv aw] run_inv_distinct [OF inv]
      by simp
  qed
  have throw: "pc (runs sb ! i) = Failed e' \<and>
        list_all (\<lambda>x. stage_rank x \<le> stage_rank st') (started (runs sb ! i)) \<and>
        distinct (started (runs sb ! i)) \<and>
        runs (exec later sb) ! i = runs sb ! i \<and>
        react (Reply i st_late rep_late) (exec later sb) = exec later sb \<and>
        length (runs sb) = length (runs s0) \<and>
        timers sb = timers s0 \<and>
        console sb = e' # console s0 \<and>
        retained ?old s0 sb \<and>
        kept_or_published (runs sb ! i) s0 sb"
    if t: "(st', Inl e') \<in> set (calls_of (runs sb ! i))"
  proof -
    let ?new = "fst (deliver st (Parses v) ?old s0)"
    have r: "runs sb ! i = ?new"
      using len unfolding sb_def s0_def by (simp add: react_Reply_fields del: react.simps)
    have shape: "length (runs sb) = length (runs s0)" "timers sb = timers s0"
      using len unfolding sb_def s0_def by (simp_all add: react_Reply_fields del: react.simps)
    have inv': "run_inv ?new"
      using inv by (rule deliver_run_inv)
    have t': "(st', Inl e') \<in> set (calls_of ?new)"
      using t r by simp
    have failed: "pc ?new = Failed e'"
      using inv' t' by (rule run_inv_thrown)
    have kept: "retained ?old s0 sb"
      using deliver_failing_retained [OF inv nf failed] len
      unfolding sb_def s0_def by (simp add: retained_def react_Reply_fields del: react.simps)
    have logged: "console sb = e' # console s0"
      using deliver_failing [OF nf failed] len
      unfolding sb_def s0_def by (simp add: react_Reply_fields del: react.simps)
    have own: "kept_or_published (runs sb ! i) s0 sb"
      using deliver_kept_or_published [of st "Parses v" ?old s0] len
      unfolding sb_def s0_def by (simp add: kept_or_published_def react_Reply_fields del: react.simps)
    have "i < length (runs sb)" "pc (runs sb ! i) = Failed e'"
      using len shape r failed by simp_all
    then show ?thesis
      using halted [of sb e'] r shape kept logged own deliver_thrown_rank [OF inv aw t']
        run_inv_distinct [OF inv']
      by simp
  qed
  show ?thesis
    using refusal throw by blast
qed

theorem failure_halts_run_witness:
  "0 < length (runs (exec ex_risk_half init)) \<and>
   awaits (pc (runs (exec ex_risk_half init) ! 0)) Sustainability \<and>
   parse_response Rejects = Inl ApiError \<and>
   pc (runs (react (Reply 0 Sustainability Rejects) (exec ex_risk_half init)) ! 0) = Failed ApiError \<and>
   normalized (react (Reply 0 Sustainability Rejects) (exec ex_risk_half init)) = ex_norm \<and>
   started (runs (exec [Reply 0 Financial (Parses ex_fin), Reply 0 Sustainability (Parses ex_sust), RunClick]
                    (react (Reply 0 Sustainability Rejects) (exec ex_risk_half init))) ! 0)
     = [Normalize, Financial, Sustainability] \<and>
   0 < length (runs (exec ex_null_risk init)) \<and>
   awaits (pc (runs (exec ex_null_risk init) ! 0)) Sustainability \<and>
   (Decision, Inl TypeError)
     \<in> set (calls_of (runs (react (Reply 0 Sustainability (Parses ex_sust)) (exec ex_null_risk init)) ! 0)) \<and>
   pc (runs (react (Reply 0 Sustainability (Parses ex_sust)) (exec ex_null_risk init)) ! 0)
     = Failed TypeError \<and>
   normalized (react (Reply 0 Sustainability (Parses ex_sust)) (exec ex_null_risk init)) = ex_norm \<and>
   started (runs (exec [Reply 0 Decision (Parses ex_dec), Reply 0 Uplift (Parses ex_up)]
                    (react (Reply 0 Sustainability (Parses ex_sust)) (exec ex_null_risk init))) ! 0)
     = [Normalize, Financial, Sustainability, Decision] \<and>
   pc (runs (exec (butlast ex_decide_no_status @
                     [Reply 0 Decision Rejects, Reply 0 Uplift (Parses ex_up)]) init) ! 0)
     = Failed ApiError \<and>
   started (runs (exec (butlast ex_decide_no_status @
                          [Reply 0 Decision Rejects, Reply 0 Uplift (Parses ex_up)]) init) ! 0)
     = [Normalize, Financial, Sustainability, Decision] \<and>
   console (exec (ex_null_risk @ [Reply 0 Sustainability (Parses ex_sust),
                                  Reply 0 Decision (Parses ex_dec)]) init) = [TypeError] \<and>
   started (runs (exec (ex_null_risk @ [Reply 0 Sustainability (Parses ex_sust),
                                        Reply 0 Decision (Parses ex_dec)]) init) ! 0)
     = [Normalize, Financial, Sustainability, Decision]"
proof -
  let ?s = "exec ex_risk_half init"
  let ?ev = "Reply 0 Sustainability Rejects"
  let ?later = "[Reply 0 Financial (Parses ex_fin), Reply 0 Sustainability (Parses ex_sust), RunClick]"
  let ?t = "exec ex_null_risk init"
  let ?ev' = "Reply 0 Sustainability (Parses ex_sust)"
  let ?later' = "[Reply 0 Decision (Parses ex_dec), Reply 0 Uplift (Parses ex_up)]"
  have a: "0 < length (runs ?s)" "awaits (pc (runs ?s ! 0)) Sustainability"
    by (simp_all add: ex_risk_half_def eval_defs)
  have b: "parse_response Rejects = Inl ApiError"
    by simp
  have c: "artifacts ?s = (ex_norm, JNull, JNull, JNull, JNull, JArr [], JNull)"
    "started (runs ?s ! 0) = [Normalize, Financial, Sustainability]"
    by (simp_all add: ex_risk_half_def eval_defs artifacts_def)
  have a': "0 < length (runs ?t)" "awaits (pc (runs ?t ! 0)) Sustainability"
    by (simp_all add: ex_null_risk_def eval_defs)
  have b': "(Decision, Inl TypeError) \<in> set (calls_of (runs (react ?ev' ?t) ! 0))"
    by (simp add: ex_null_risk_def eval_defs calls_of_def)
  have c': "normalized ?t = ex_norm" "norm_l (runs ?t ! 0) \<noteq> None"
    "started (runs (react ?ev' ?t) ! 0) = [Normalize, Financial, Sustainability, Decision]"
    by (simp_all add: ex_null_risk_def eval_defs)
  note refusal = failure_halts_run [where evs = ex_risk_half and i = 0 and st = Sustainability
      and rep = Rejects and e = ApiError and later = ?later
      and st_late = Sustainability and rep_late = "Parses ex_sust", OF a, THEN conjunct1, rule_format, OF b]
  note throw = failure_halts_run [where evs = ex_null_risk and i = 0 and st = Sustainability
      and v = ex_sust and st' = Decision and e' = TypeError and later = ?later'
      and st_late = Decision and rep_late = "Parses ex_dec", OF a', THEN conjunct2, rule_format, OF b']
  have "artifacts (react ?ev ?s) = artifacts ?s"
    using refusal by (elim conjE)
  then have r1: "normalized (react ?ev ?s) = ex_norm"
    unfolding c(1) by (simp add: artifacts_def del: react.simps exec.simps)
  have "started (runs (exec ?later (react ?ev ?s)) ! 0) = started (runs ?s ! 0)"
    using refusal by (elim conjE) (simp del: react.simps exec.simps)
  then have r2: "started (runs (exec ?later (react ?ev ?s)) ! 0) = [Normalize, Financial, Sustainability]"
    unfolding c(2) .
  have r3: "pc (runs (react ?ev ?s) ! 0) = Failed ApiError"
    using refusal by (elim conjE)
  have "retained (runs ?t ! 0) ?t (react ?ev' ?t)"
    using throw by (elim conjE)
  then have t1: "normalized (react ?ev' ?t) = ex_norm"
    using c'(1,2) unfolding retained_def by (elim conjE) (simp del: react.simps exec.simps)
  have "runs (exec ?later' (react ?ev' ?t)) ! 0 = runs (react ?ev' ?t) ! 0"
    using throw by (elim conjE)
  then have t2: "started (runs (exec ?later' (react ?ev' ?t)) ! 0)
      = [Normalize, Financial, Sustainability, Decision]"
    using c'(3) by (simp del: react.simps exec.simps)
  have t3: "pc (runs (react ?ev' ?t) ! 0) = Failed TypeError"
    using throw by (elim conjE)
  have run: "pc (runs (exec (butlast ex_decide_no_status @
        [Reply 0 Decision Rejects, Reply 0 Uplift (Parses ex_up)]) init) ! 0) = Failed ApiError"
    "started (runs (exec (butlast ex_decide_no_status @
        [Reply 0 Decision Rejects, Reply 0 Uplift (Parses ex_up)]) init) ! 0)
      = [Normalize, Financial, Sustainability, Decision]"
    "console (exec (ex_null_risk @ [Reply 0 Sustainability (Parses ex_sust),
        Reply 0 Decision (Parses ex_dec)]) init) = [TypeError]"
    "started (runs (exec (ex_null_risk @ [Reply 0 Sustainability (Parses ex_sust),
        Reply 0 Decision (Parses ex_dec)]) init) ! 0)
      = [Normalize, Financial, Sustainability, Decision]"
    by (simp_all add: ex_decide_no_status_def ex_null_risk_def eval_defs)
  show ?thesis
    using a b r1 r2 r3 a' b' t1 t2 t3 run by (simp del: react.simps exec.simps)
qed

section \<open>Publication of results\<close>

text \<open>
  Claim C7, as the code has it. Whenever a step of a run invokes a later stage, the results
  that stage comes after are in the published state that step leaves: \<open>normalized\<close> when
  a risk scorer is invoked, both risk scores when \<open>getDecision\<close> is, the decision when
  \<open>planUplift\<close> or \<open>simulateClimate\<close> is, \<open>uplift\<close> and \<open>simulations\<close> when \<open>getReview\<close> is.
  And a result is published in the very step in which the run's await hands it over (binds
  the local constant): for \<open>normalizeData\<close>, \<open>getDecision\<close> and \<open>getReview\<close> the step in
  which the stage resolves, for the two pairs under \<open>Promise.all\<close> the step in which the
  second of the pair resolves.
\<close>

theorem results_published_before_later_stage:
  assumes "i < length (runs s)"
  shows "published_before_start (runs s ! i) (runs (react ev s) ! i) (react ev s) \<and>
         published_when_bound (runs s ! i) (runs (react ev s) ! i) (react ev s)"
proof (cases "runs (react ev s) ! i = runs s ! i")
  case True
  then show ?thesis
    by (simp add: published_before_start_def published_when_bound_def newly_started_def)
next
  case False
  then obtain st rep where ev: "ev = Reply i st rep"
    using react_other_run [OF assms] by blast
  show ?thesis
    using deliver_publishes [of "runs s ! i" st rep s] deliver_bound [of "runs s ! i" st rep s]
    unfolding ev published_before_start_def published_when_bound_def
    by (simp add: react_Reply_fields [OF assms] del: react.simps)
qed

theorem results_published_before_later_stage_witness:
  "0 < length (runs (exec [RunClick] init)) \<and>
   newly_started Financial (runs (exec [RunClick] init) ! 0)
     (runs (react (Reply 0 Normalize (Parses ex_norm)) (exec [RunClick] init)) ! 0) \<and>
   normalized (react (Reply 0 Normalize (Parses ex_norm)) (exec [RunClick] init)) = ex_norm \<and>
   newly_started Decision (runs (exec (RunClick # take 2 (ex_answers 0)) init) ! 0)
     (runs (react (Reply 0 Sustainability (Parses ex_sust))
             (exec (RunClick # take 2 (ex_answers 0)) init)) ! 0) \<and>
   financialRisk (react (Reply 0 Sustainability (Parses ex_sust))
                    (exec (RunClick # take 2 (ex_answers 0)) init)) = ex_fin \<and>
   sustainabilityRisk (react (Reply 0 Sustainability (Parses ex_sust))
                         (exec (RunClick # take 2 (ex_answers 0)) init)) = ex_sust \<and>
   newly_started Uplift (runs (exec (RunClick # take 3 (ex_answers 0)) init) ! 0)
     (runs (react (Reply 0 Decision (Parses ex_dec))
             (exec (RunClick # take 3 (ex_answers 0)) init)) ! 0) \<and>
   decision (react (Reply 0 Decision (Parses ex_dec))
               (exec (RunClick # take 3 (ex_answers 0)) init)) = ex_dec \<and>
   newly_started Review (runs (exec (RunClick # take 5 (ex_answers 0)) init) ! 0)
     (runs (react (Reply 0 Climate (Parses ex_sim))
             (exec (RunClick # take 5 (ex_answers 0)) init)) ! 0) \<and>
   uplift (react (Reply 0 Climate (Parses ex_sim))
             (exec (RunClick # take 5 (ex_answers 0)) init)) = ex_up \<and>
   simulations (react (Reply 0 Climate (Parses ex_sim))
                  (exec (RunClick # take 5 (ex_answers 0)) init)) = ex_sim"
proof -
  let ?s0 = "exec [RunClick] init"
  let ?s2 = "exec (RunClick # take 2 (ex_answers 0)) init"
  let ?s3 = "exec (RunClick # take 3 (ex_answers 0)) init"
  let ?s5 = "exec (RunClick # take 5 (ex_answers 0)) init"
  let ?e0 = "Reply 0 Normalize (Parses ex_norm)"
  let ?e2 = "Reply 0 Sustainability (Parses ex_sust)"
  let ?e3 = "Reply 0 Decision (Parses ex_dec)"
  let ?e5 = "Reply 0 Climate (Parses ex_sim)"
  have len: "0 < length (runs ?s0)" "0 < length (runs ?s2)" "0 < length (runs ?s3)"
    "0 < length (runs ?s5)"
    by (simp_all add: eval_defs)
  have new: "newly_started Financial (runs ?s0 ! 0) (runs (react ?e0 ?s0) ! 0)"
    "newly_started Decision (runs ?s2 ! 0) (runs (react ?e2 ?s2) ! 0)"
    "newly_started Uplift (runs ?s3 ! 0) (runs (react ?e3 ?s3) ! 0)"
    "newly_started Review (runs ?s5 ! 0) (runs (react ?e5 ?s5) ! 0)"
    by (simp_all add: eval_defs newly_started_def)
  have bound: "norm_l (runs (react ?e0 ?s0) ! 0) = Some ex_norm"
    "fin_l (runs (react ?e2 ?s2) ! 0) = Some ex_fin"
    "sust_l (runs (react ?e2 ?s2) ! 0) = Some ex_sust"
    "dec_l (runs (react ?e3 ?s3) ! 0) = Some ex_dec"
    "up_l (runs (react ?e5 ?s5) ! 0) = Some ex_up"
    "sim_l (runs (react ?e5 ?s5) ! 0) = Some ex_sim"
    by (simp_all add: eval_defs)
  have p0: "published_before_start (runs ?s0 ! 0) (runs (react ?e0 ?s0) ! 0) (react ?e0 ?s0)"
    by (rule results_published_before_later_stage [OF len(1), of ?e0, THEN conjunct1])
  have p2: "published_before_start (runs ?s2 ! 0) (runs (react ?e2 ?s2) ! 0) (react ?e2 ?s2)"
    by (rule results_published_before_later_stage [OF len(2), of ?e2, THEN conjunct1])
  have p3: "published_before_start (runs ?s3 ! 0) (runs (react ?e3 ?s3) ! 0) (react ?e3 ?s3)"
    by (rule results_published_before_later_stage [OF len(3), of ?e3, THEN conjunct1])
  have p5: "published_before_start (runs ?s5 ! 0) (runs (react ?e5 ?s5) ! 0) (react ?e5 ?s5)"
    by (rule results_published_before_later_stage [OF len(4), of ?e5, THEN conjunct1])
  show ?thesis
    using len(1) new bound p0 p2 p3 p5
    by (simp add: published_before_start_def del: react.simps exec.simps)
qed

text \<open>
  Against claim C7 as stated: the financial stage of run 0 has resolved with \<open>ex_fin\<close>
  (\<open>Promise.all\<close> holds it), yet \<open>financialRisk\<close> is still \<open>null\<close>; and when the
  sustainability stage is then refused, it stays \<open>null\<close>.
\<close>

theorem financial_result_waits_for_sibling:
  "pc (runs (exec ex_risk_half init) ! 0) = AwaitRisk ex_norm (Some ex_fin) None \<and>
   financialRisk (exec ex_risk_half init) = JNull \<and>
   pc (runs (exec (ex_risk_half @ [Reply 0 Sustainability Rejects]) init) ! 0) = Failed ApiError \<and>
   financialRisk (exec (ex_risk_half @ [Reply 0 Sustainability Rejects]) init) = JNull"
  by (simp add: ex_risk_half_def eval_defs)

section \<open>Failure by mode\<close>

lemma deliver_published_exactly:
  assumes "run_inv r"
  shows "published_exactly r (fst (deliver st rep r s)) s (snd (deliver st rep r s))"
  using run_invD [OF assms]
  by (cases "pc r")
     (auto simp: published_exactly_def set_by_def resume_defs thrown_Cons
           split: sum.splits option.splits if_splits)

lemma deliver_thrown_late:
  assumes "run_inv r" "awaits (pc r) st"
    and "(st', Inl e) \<in> set (calls_of (fst (deliver st (Parses v) r s)))"
  shows "decision (snd (deliver st (Parses v) r s)) = decision s \<and>
         uplift (snd (deliver st (Parses v) r s)) = uplift s \<and>
         simulations (snd (deliver st (Parses v) r s)) = simulations s \<and>
         review (snd (deliver st (Parses v) r s)) = review s"
proof -
  have "st = Normalize \<or> st = Financial \<or> st = Sustainability"
    using deliver_thrown_rank [OF assms] by simp
  then show ?thesis
    using assms(2)
    by (cases "pc r") (auto simp: resume_defs split: sum.splits option.splits)
qed

text \<open>
  Against claim C8 as stated. Background run 1 is answered by \<open>normalizeData\<close> with
  \<open>null\<close>: the displayed \<open>normalized\<close>, which was \<open>ex_norm\<close>, is replaced by \<open>null\<close>, and
  the run fails when the risk adapters read it; nothing is alerted. And a failing
  background run does more than log: run 2 is refused while the interactive run 1 is still
  in flight, and \<open>loading\<close>, which run 1 had set, is cleared.
\<close>

theorem background_failure_replaces_artifact:
  "isRealTime (runs (exec ex_background init) ! 1) \<and>
   pc (runs (exec ex_background init) ! 1) = AwaitNormalize \<and>
   normalized (exec ex_background init) = ex_norm \<and>
   normalized (exec (ex_background @ [Reply 1 Normalize (Parses JNull)]) init) = JNull \<and>
   pc (runs (exec (ex_background @ [Reply 1 Normalize (Parses JNull)]) init) ! 1) = Failed TypeError \<and>
   console (exec (ex_background @ [Reply 1 Normalize (Parses JNull)]) init) = [TypeError] \<and>
   alerts (exec (ex_background @ [Reply 1 Normalize (Parses JNull)]) init) = 0 \<and>
   isRealTime (runs (exec ex_click_then_background init) ! 2) \<and>
   pc (runs (exec ex_click_then_background init) ! 1) = AwaitNormalize \<and>
   loading (exec ex_click_then_background init) \<and>
   pc (runs (exec (ex_click_then_background @ [Reply 2 Normalize Rejects]) init) ! 2) = Failed ApiError \<and>
   pc (runs (exec (ex_click_then_background @ [Reply 2 Normalize Rejects]) init) ! 1) = AwaitNormalize \<and>
   loading (exec (ex_click_then_background @ [Reply 2 Normalize Rejects]) init) = False"
  by (simp add: ex_background_def ex_click_then_background_def ex_first_run_def eval_defs)

text \<open>
  Claim C8, as the code has it. Take a state the component can reach and a run \<open>i\<close> in it
  that waits for the answer to stage \<open>st\<close>, and let a stage of the run fail: the oracle
  refuses the call of \<open>st\<close>, or its answer parses and the adapter of a stage \<open>st'\<close> invoked
  on it throws. In both modes the step in which the run fails leaves the wizard step as it
  was (so a failed interactive run does not advance), logs the error to the console, and
  clears \<open>loading\<close> and the syncing flag. The modes differ in the alert only: one alert for
  an interactive run, none for a background run. The failure handling sets no artifact:
  after a refusal all seven are what they were. When an adapter throws, the results the
  await has just handed over have been published before it was invoked, in place of what
  was displayed: each artifact is the value its constant was bound to in this step, if it
  was bound, and what it was otherwise, and the decision, the uplift plan, the simulations
  and the review are what they were.
\<close>

theorem failure_by_mode:
  fixes evs :: "event list" and i :: nat and st :: stage and rep :: reply and v :: json
  defines "s0 \<equiv> exec evs init"
  defines "sa \<equiv> react (Reply i st rep) (exec evs init)"
  defines "sb \<equiv> react (Reply i st (Parses v)) (exec evs init)"
  assumes "i < length (runs s0)" and "awaits (pc (runs s0 ! i)) st"
  shows
    "(parse_response rep = Inl e \<longrightarrow>
        step sa = step s0 \<and>
        console sa = e # console s0 \<and>
        alerts sa = (if isRealTime (runs s0 ! i) then alerts s0 else alerts s0 + 1) \<and>
        loading sa = False \<and>
        realTimeUpdate sa = False \<and>
        artifacts sa = artifacts s0) \<and>
     ((st', Inl e') \<in> set (calls_of (runs sb ! i)) \<longrightarrow>
        step sb = step s0 \<and>
        console sb = e' # console s0 \<and>
        alerts sb = (if isRealTime (runs s0 ! i) then alerts s0 else alerts s0 + 1) \<and>
        loading sb = False \<and>
        realTimeUpdate sb = False \<and>
        published_exactly (runs s0 ! i) (runs sb ! i) s0 sb \<and>
        decision sb = decision s0 \<and> uplift sb = uplift s0 \<and>
        simulations sb = simulations s0 \<and> review sb = review s0)"
proof -
  let ?old = "runs s0 ! i"
  have len: "i < length (runs s0)" and aw: "awaits (pc ?old) st"
    using assms by simp_all
  have inv: "run_inv ?old"
    using reachable_runs_inv [of evs] len by (simp add: s0_def list_all_length)
  have nf: "\<not> is_failed (pc ?old)"
    using aw by (cases "pc ?old") (simp_all add: is_failed_def)
  have refusal: "step sa = step s0 \<and>
        console sa = e # console s0 \<and>
        alerts sa = (if isRealTime ?old then alerts s0 else alerts s0 + 1) \<and>
        loading sa = False \<and>
        realTimeUpdate sa = False \<and>
        artifacts sa = artifacts s0"
    if p: "parse_response rep = Inl e"
    using len deliver_refusal [OF aw p, of s0]
    unfolding sa_def s0_def
    by (simp add: artifacts_def react_Reply_fields catch_finally_def del: react.simps)
  have throw: "step sb = step s0 \<and>
        console sb = e' # console s0 \<and>
        alerts sb = (if isRealTime ?old then alerts s0 else alerts s0 + 1) \<and>
        loading sb = False \<and>
        realTimeUpdate sb = False \<and>
        published_exactly ?old (runs sb ! i) s0 sb \<and>
        decision sb = decision s0 \<and> uplift sb = uplift s0 \<and>
        simulations sb = simulations s0 \<and> review sb = review s0"
    if t: "(st', Inl e') \<in> set (calls_of (runs sb ! i))"
  proof -
    let ?new = "fst (deliver st (Parses v) ?old s0)"
    have r: "runs sb ! i = ?new"
      using len unfolding sb_def s0_def by (simp add: react_Reply_fields del: react.simps)
    have t': "(st', Inl e') \<in> set (calls_of ?new)"
      using t r by simp
    have failed: "pc ?new = Failed e'"
      using deliver_run_inv [OF inv] t' by (rule run_inv_thrown)
    show ?thesis
      using deliver_failing [OF nf failed] deliver_published_exactly [OF inv, of st "Parses v" s0]
        deliver_thrown_late [OF inv aw t'] len
      unfolding sb_def s0_def published_exactly_def
      by (simp add: react_Reply_fields del: react.simps)
  qed
  show ?thesis
    using refusal throw by blast
qed

theorem failure_by_mode_witness:
  "1 < length (runs (exec ex_background init)) \<and>
   isRealTime (runs (exec ex_background init) ! 1) \<and>
   awaits (pc (runs (exec ex_background init) ! 1)) Normalize \<and>
   parse_response Garbled = Inl SyntaxError \<and>
   step (react (Reply 1 Normalize Garbled) (exec ex_background init)) = AppStep_Input \<and>
   alerts (react (Reply 1 Normalize Garbled) (exec ex_background init)) = 0 \<and>
   console (react (Reply 1 Normalize Garbled) (exec ex_background init)) = [SyntaxError] \<and>
   artifacts (react (Reply 1 Normalize Garbled) (exec ex_background init)) =
     (ex_norm, ex_fin, ex_sust, ex_dec, ex_up, ex_sim, ex_rev) \<and>
   (Financial, Inl TypeError)
     \<in> set (calls_of (runs (react (Reply 1 Normalize (Parses JNull)) (exec ex_background init)) ! 1)) \<and>
   alerts (react (Reply 1 Normalize (Parses JNull)) (exec ex_background init)) = 0 \<and>
   console (react (Reply 1 Normalize (Parses JNull)) (exec ex_background init)) = [TypeError] \<and>
   artifacts (react (Reply 1 Normalize (Parses JNull)) (exec ex_background init)) =
     (JNull, ex_fin, ex_sust, ex_dec, ex_up, ex_sim, ex_rev) \<and>
   0 < length (runs (exec ex_risk_half init)) \<and>
   isRealTime (runs (exec ex_risk_half init) ! 0) = False \<and>
   awaits (pc (runs (exec ex_risk_half init) ! 0)) Sustainability \<and>
   parse_response Rejects = Inl ApiError \<and>
   alerts (react (Reply 0 Sustainability Rejects) (exec ex_risk_half init)) = 1 \<and>
   step (react (Reply 0 Sustainability Rejects) (exec ex_risk_half init)) = AppStep_Input \<and>
   loading (exec ex_risk_half init) \<and>
   loading (react (Reply 0 Sustainability Rejects) (exec ex_risk_half init)) = False"
proof -
  let ?s = "exec ex_background init"
  let ?t = "exec ex_risk_half init"
  let ?ev = "Reply 1 Normalize Garbled"
  let ?ev' = "Reply 1 Normalize (Parses JNull)"
  let ?ev'' = "Reply 0 Sustainability Rejects"
  have a: "1 < length (runs ?s)" "awaits (pc (runs ?s ! 1)) Normalize"
    by (simp_all add: ex_background_def eval_defs)
  have b: "parse_response Garbled = Inl SyntaxError" "parse_response Rejects = Inl ApiError"
    by simp_all
  have c: "(Financial, Inl TypeError) \<in> set (calls_of (runs (react ?ev' ?s) ! 1))"
    by (simp add: ex_background_def eval_defs calls_of_def)
  have d: "isRealTime (runs ?s ! 1)" "step ?s = AppStep_Input" "alerts ?s = 0" "console ?s = []"
    "artifacts ?s = (ex_norm, ex_fin, ex_sust, ex_dec, ex_up, ex_sim, ex_rev)"
    by (simp_all add: ex_background_def eval_defs artifacts_def)
  have l: "norm_l (runs ?s ! 1) = None" "fin_l (runs ?s ! 1) = None" "sust_l (runs ?s ! 1) = None"
    "norm_l (runs (react ?ev' ?s) ! 1) = Some JNull"
    "fin_l (runs (react ?ev' ?s) ! 1) = None" "sust_l (runs (react ?ev' ?s) ! 1) = None"
    by (simp_all add: ex_background_def eval_defs)
  have a': "0 < length (runs ?t)" "awaits (pc (runs ?t ! 0)) Sustainability"
    by (simp_all add: ex_risk_half_def eval_defs)
  have d': "isRealTime (runs ?t ! 0) = False" "step ?t = AppStep_Input" "alerts ?t = 0" "loading ?t"
    by (simp_all add: ex_risk_half_def eval_defs)
  note background = failure_by_mode [where evs = ex_background and i = 1 and st = Normalize
      and rep = Garbled and e = SyntaxError, OF a, THEN conjunct1, rule_format, OF b(1)]
  note thrown = failure_by_mode [where evs = ex_background and i = 1 and st = Normalize
      and v = JNull and st' = Financial and e' = TypeError, OF a, THEN conjunct2, rule_format, OF c]
  note interactive = failure_by_mode [where evs = ex_risk_half and i = 0 and st = Sustainability
      and rep = Rejects and e = ApiError, OF a', THEN conjunct1, rule_format, OF b(2)]
  have r1: "step (react ?ev ?s) = AppStep_Input" "alerts (react ?ev ?s) = 0"
    "console (react ?ev ?s) = [SyntaxError]"
    "artifacts (react ?ev ?s) = (ex_norm, ex_fin, ex_sust, ex_dec, ex_up, ex_sim, ex_rev)"
    using background d by (simp_all del: react.simps exec.simps)
  have pe: "published_exactly (runs ?s ! 1) (runs (react ?ev' ?s) ! 1) ?s (react ?ev' ?s)"
    and late: "decision (react ?ev' ?s) = decision ?s" "uplift (react ?ev' ?s) = uplift ?s"
      "simulations (react ?ev' ?s) = simulations ?s" "review (react ?ev' ?s) = review ?s"
    and log: "alerts (react ?ev' ?s) = (if isRealTime (runs ?s ! 1) then alerts ?s else alerts ?s + 1)"
      "console (react ?ev' ?s) = TypeError # console ?s"
    using thrown by (simp_all del: react.simps exec.simps)
  have early: "normalized (react ?ev' ?s) = JNull" "financialRisk (react ?ev' ?s) = financialRisk ?s"
    "sustainabilityRisk (react ?ev' ?s) = sustainabilityRisk ?s"
    using pe l unfolding published_exactly_def
    by (simp_all add: set_by_def del: react.simps exec.simps)
  have r2: "alerts (react ?ev' ?s) = 0" "console (react ?ev' ?s) = [TypeError]"
    "artifacts (react ?ev' ?s) = (JNull, ex_fin, ex_sust, ex_dec, ex_up, ex_sim, ex_rev)"
    using d(1,3,4,5) log unfolding artifacts_def early late
    by (simp_all del: react.simps exec.simps)
  have r3: "alerts (react ?ev'' ?t) = 1" "step (react ?ev'' ?t) = AppStep_Input"
    "loading (react ?ev'' ?t) = False"
    using interactive d' by (simp_all del: react.simps exec.simps)
  show ?thesis
    using a b c d(1) a' d'(1,4) r1 r2 r3 by (simp del: react.simps exec.simps)
qed

section \<open>Runs that overlap\<close>






section \<open>Unvalidated answers\<close>

lemma interpolate_score_fails:
  "interpolate_score x = (if unreadable_score x then Inl TypeError else Inr (projr (member x ''score'')))"
  by (cases x) (auto simp: interpolate_score_def unreadable_score_def split: option.splits)

lemma thrown_risk:
  "thrown [(Financial, assessFinancialRisk v), (Sustainability, assessSustainabilityRisk v)] =
     (if v = JNull then Some TypeError else None)"
  by (cases v) (simp_all add: assessFinancialRisk_def assessSustainabilityRisk_def)

lemma thrown_decision:
  "thrown [(Decision, getDecision f su)] =
     (if unreadable_score f \<or> unreadable_score su then Some TypeError else None)"
  by (simp add: getDecision_def interpolate_score_fails)

lemma thrown_uplift:
  "thrown [(Uplift, planUplift su), (Climate, simulateClimate f su)] =
     (if unreadable_score f \<or> unreadable_score su then Some TypeError else None)"
  by (simp add: planUplift_def simulateClimate_def interpolate_score_fails)

lemma thrown_review: "thrown [(Review, getReview n f su d u si)] = None"
  by (simp add: getReview_def)

lemma decided_readable:
  assumes "run_inv r" "pc r = AwaitDecision n f su"
  shows "\<not> unreadable_score f \<and> \<not> unreadable_score su"
proof -
  have "thrown (calls_of r) = None"
    using assms by (intro awaits_not_thrown [where st = Decision]) simp_all
  moreover have "calls_of r =
      [(Normalize, normalizeData (snapshot r)), (Financial, assessFinancialRisk n),
       (Sustainability, assessSustainabilityRisk n)] @ [(Decision, getDecision f su)]"
    using run_invD [OF assms(1)] assms(2) by (simp add: calls_of_def)
  ultimately have "thrown ([(Normalize, normalizeData (snapshot r)), (Financial, assessFinancialRisk n),
       (Sustainability, assessSustainabilityRisk n)] @ [(Decision, getDecision f su)]) = None"
    by (simp only:)
  then have "thrown [(Decision, getDecision f su)] = None"
    by (simp only: thrown_append split: option.splits) simp
  then show ?thesis
    by (simp add: thrown_decision split: if_splits)
qed

lemma launch_pc:
  "pc (fst (launch cs p r s)) = (case thrown cs of None \<Rightarrow> p | Some e \<Rightarrow> Failed e)"
  "console (snd (launch cs p r s)) = (case thrown cs of None \<Rightarrow> console s | Some e \<Rightarrow> e # console s)"
  by (simp_all add: launch_def catch_finally_def Let_def split: option.splits)

lemma launch_locals:
  "norm_l (fst (launch cs p r s)) = norm_l r" "fin_l (fst (launch cs p r s)) = fin_l r"
  "sust_l (fst (launch cs p r s)) = sust_l r" "dec_l (fst (launch cs p r s)) = dec_l r"
  "up_l (fst (launch cs p r s)) = up_l r" "sim_l (fst (launch cs p r s)) = sim_l r"
  "rev_l (fst (launch cs p r s)) = rev_l r"
  "normalized (snd (launch cs p r s)) = normalized s"
  "financialRisk (snd (launch cs p r s)) = financialRisk s"
  "sustainabilityRisk (snd (launch cs p r s)) = sustainabilityRisk s"
  "decision (snd (launch cs p r s)) = decision s" "uplift (snd (launch cs p r s)) = uplift s"
  "simulations (snd (launch cs p r s)) = simulations s" "review (snd (launch cs p r s)) = review s"
  by (simp_all add: launch_def catch_finally_def Let_def split: option.splits)

lemma deliver_hands_over:
  assumes "run_inv r" "awaits (pc r) st"
  shows "handed_over (pc r) st v (fst (deliver st (Parses v) r s)) (snd (deliver st (Parses v) r s)) \<and>
         is_failed (pc (fst (deliver st (Parses v) r s))) = prompt_fails (pc r) st v \<and>
         (pc (fst (deliver st (Parses v) r s)) = Failed TypeError) = prompt_fails (pc r) st v \<and>
         console (snd (deliver st (Parses v) r s)) =
           (if prompt_fails (pc r) st v then TypeError # console s else console s)"
proof (cases "pc r")
  case AwaitNormalize
  then show ?thesis
    using assms(2)
    by (simp add: deliver_def after_normalize_def launch_pc launch_locals thrown_risk is_failed_def)
next
  case (AwaitRisk n a b)
  then show ?thesis
    using assms(2)
    by (auto simp: deliver_def join_risk_def launch_pc launch_locals thrown_decision is_failed_def
             split: option.splits)
next
  case (AwaitDecision n f su)
  then show ?thesis
    using assms(2) decided_readable [OF assms(1) AwaitDecision]
    by (simp add: deliver_def after_decision_def launch_pc launch_locals thrown_uplift is_failed_def)
next
  case (AwaitUplift n f su d a b)
  then show ?thesis
    using assms(2)
    by (auto simp: deliver_def join_uplift_def launch_pc launch_locals thrown_review is_failed_def
             split: option.splits)
next
  case AwaitReview
  then show ?thesis
    using assms(2) by (simp add: deliver_def after_review_def is_failed_def)
qed (use assms in simp_all)

text \<open>
  Claim C4, as the code has it. No adapter validates the answer against its declared shape.
  Take a state the component can reach and a run \<open>i\<close> in it that waits for the answer to
  stage \<open>st\<close>, any of the seven. The stage fails when the call rejects and when its text does
  not parse. When the text parses, to any value \<open>v\<close> whatever, the adapter returns \<open>v\<close> and
  the run takes it as the result of the stage: it is bound and published as it is (or held
  as it is while the other promise of a \<open>Promise.all\<close> is pending). The run then fails in
  that step in exactly two cases, both a TypeError thrown by the adapter invoked next while
  it builds its prompt: \<open>normalizeData\<close> has returned \<open>null\<close>, or one of the two risk results
  just bound is \<open>null\<close> or has a \<open>score\<close> that cannot be converted to a string. In
  particular no answer to \<open>getDecision\<close>, \<open>planUplift\<close>, \<open>simulateClimate\<close> or
  \<open>getReview\<close> that parses makes the run fail.
\<close>

theorem adapters_do_not_validate:
  fixes evs :: "event list" and i :: nat and st :: stage and v :: json
  defines "s0 \<equiv> exec evs init"
  defines "sb \<equiv> react (Reply i st (Parses v)) (exec evs init)"
  assumes "i < length (runs s0)" and "awaits (pc (runs s0 ! i)) st"
  shows "pc (runs (react (Reply i st Rejects) s0) ! i) = Failed ApiError \<and>
         pc (runs (react (Reply i st Garbled) s0) ! i) = Failed SyntaxError \<and>
         handed_over (pc (runs s0 ! i)) st v (runs sb ! i) sb \<and>
         is_failed (pc (runs sb ! i)) = prompt_fails (pc (runs s0 ! i)) st v \<and>
         (pc (runs sb ! i) = Failed TypeError) = prompt_fails (pc (runs s0 ! i)) st v \<and>
         console sb = (if prompt_fails (pc (runs s0 ! i)) st v then TypeError # console s0 else console s0)"
proof -
  let ?old = "runs s0 ! i"
  have len: "i < length (runs s0)" and aw: "awaits (pc ?old) st"
    using assms by simp_all
  have inv: "run_inv ?old"
    using reachable_runs_inv [of evs] len by (simp add: s0_def list_all_length)
  have "pc (runs (react (Reply i st Rejects) s0) ! i) = Failed ApiError"
    using len deliver_refusal [OF aw, of Rejects ApiError s0]
    by (simp add: react_Reply_fields del: react.simps)
  moreover have "pc (runs (react (Reply i st Garbled) s0) ! i) = Failed SyntaxError"
    using len deliver_refusal [OF aw, of Garbled SyntaxError s0]
    by (simp add: react_Reply_fields del: react.simps)
  moreover have "handed_over (pc ?old) st v (runs sb ! i) sb"
  proof -
    let ?new = "fst (deliver st (Parses v) ?old s0)"
    let ?s' = "snd (deliver st (Parses v) ?old s0)"
    have "handed_over (pc ?old) st v ?new ?s'"
      using deliver_hands_over [OF inv aw] by simp
    moreover have "runs sb ! i = ?new" "normalized sb = normalized ?s'"
      "financialRisk sb = financialRisk ?s'" "sustainabilityRisk sb = sustainabilityRisk ?s'"
      "decision sb = decision ?s'" "uplift sb = uplift ?s'" "simulations sb = simulations ?s'"
      "review sb = review ?s'"
      using len unfolding sb_def s0_def by (simp_all add: react_Reply_fields del: react.simps)
    ultimately show ?thesis
      by (cases "pc ?old") (simp_all split: option.splits if_splits)
  qed
  moreover have "is_failed (pc (runs sb ! i)) = prompt_fails (pc ?old) st v"
    "(pc (runs sb ! i) = Failed TypeError) = prompt_fails (pc ?old) st v"
    "console sb = (if prompt_fails (pc ?old) st v then TypeError # console s0 else console s0)"
    using len deliver_hands_over [OF inv aw, of v s0]
    unfolding sb_def s0_def by (simp_all add: react_Reply_fields del: react.simps)
  ultimately show ?thesis
    by simp
qed


theorem adapters_do_not_validate_witness:
  "0 < length (runs (exec (butlast ex_decide_no_status) init)) \<and>
   awaits (pc (runs (exec (butlast ex_decide_no_status) init) ! 0)) Decision \<and>
   decision (react (Reply 0 Decision (Parses ex_no_status))
               (exec (butlast ex_decide_no_status) init)) = ex_no_status \<and>
   is_failed (pc (runs (react (Reply 0 Decision (Parses ex_no_status))
                          (exec (butlast ex_decide_no_status) init)) ! 0)) = False \<and>
   pc (runs (react (Reply 0 Decision Garbled)
               (exec (butlast ex_decide_no_status) init)) ! 0) = Failed SyntaxError \<and>
   0 < length (runs (exec [RunClick] init)) \<and>
   awaits (pc (runs (exec [RunClick] init) ! 0)) Normalize \<and>
   normalized (react (Reply 0 Normalize (Parses JNull)) (exec [RunClick] init)) = JNull \<and>
   pc (runs (react (Reply 0 Normalize (Parses JNull)) (exec [RunClick] init)) ! 0) = Failed TypeError \<and>
   normalized (react (Reply 0 Normalize (Parses ex_not_an_object)) (exec [RunClick] init))
     = ex_not_an_object \<and>
   is_failed (pc (runs (react (Reply 0 Normalize (Parses ex_not_an_object))
                          (exec [RunClick] init)) ! 0)) = False \<and>
   0 < length (runs (exec ex_risk_half init)) \<and>
   awaits (pc (runs (exec ex_risk_half init) ! 0)) Sustainability \<and>
   unreadable_score ex_odd_score \<and>
   sustainabilityRisk (react (Reply 0 Sustainability (Parses ex_odd_score)) (exec ex_risk_half init))
     = ex_odd_score \<and>
   pc (runs (react (Reply 0 Sustainability (Parses ex_odd_score)) (exec ex_risk_half init)) ! 0)
     = Failed TypeError \<and>
   pc (runs (exec [RunClick, Reply 0 Normalize (Parses ex_not_an_object)] init) ! 0)
     = AwaitRisk ex_not_an_object None None \<and>
   sent (runs (exec [RunClick, Reply 0 Normalize (Parses ex_not_an_object)] init) ! 0)
     = [NormalizeReq init_input, FinancialReq None, SustainabilityReq None] \<and>
   sent (runs (exec (ex_risk_half @ [Reply 0 Sustainability (Parses ex_odd_score)]) init) ! 0)
     = [NormalizeReq init_input,
        FinancialReq (Some (JObj [(''revenueScore'', JNum 60), (''cashFlowStability'', JNum 75),
                                  (''debtRatio'', JNum 35), (''creditScore'', JNum 80)])),
        SustainabilityReq (Some (JObj [(''energyCleanliness'', JNum 25), (''carbonEfficiency'', JNum 20),
                                       (''laborEthics'', JNum 90), (''regulatoryRisk'', JNum 10)]))]"
proof -
  let ?s = "exec (butlast ex_decide_no_status) init"
  let ?t = "exec [RunClick] init"
  let ?u = "exec ex_risk_half init"
  have a: "0 < length (runs ?s)" "awaits (pc (runs ?s ! 0)) Decision"
    by (simp_all add: ex_decide_no_status_def eval_defs)
  have b: "0 < length (runs ?t)" "awaits (pc (runs ?t ! 0)) Normalize"
    by (simp_all add: eval_defs)
  have c: "0 < length (runs ?u)" "awaits (pc (runs ?u ! 0)) Sustainability"
    by (simp_all add: ex_risk_half_def eval_defs)
  have p: "pc (runs ?s ! 0) = AwaitDecision ex_norm ex_fin ex_sust"
    "pc (runs ?t ! 0) = AwaitNormalize"
    "pc (runs ?u ! 0) = AwaitRisk ex_norm (Some ex_fin) None"
    by (simp_all add: ex_decide_no_status_def ex_risk_half_def eval_defs)
  have q: "unreadable_score ex_odd_score" "ex_not_an_object \<noteq> JNull"
    by (simp_all add: unreadable_score_def ex_odd_score_def ex_not_an_object_def)
  note decide = adapters_do_not_validate [where evs = "butlast ex_decide_no_status" and i = 0
      and st = Decision and v = ex_no_status, OF a, unfolded p]
  note null = adapters_do_not_validate [where evs = "[RunClick]" and i = 0
      and st = Normalize and v = JNull, OF b, unfolded p]
  note odd = adapters_do_not_validate [where evs = "[RunClick]" and i = 0
      and st = Normalize and v = ex_not_an_object, OF b, unfolded p]
  note score = adapters_do_not_validate [where evs = ex_risk_half and i = 0
      and st = Sustainability and v = ex_odd_score, OF c, unfolded p]
  have r1: "decision (react (Reply 0 Decision (Parses ex_no_status)) ?s) = ex_no_status"
    "is_failed (pc (runs (react (Reply 0 Decision (Parses ex_no_status)) ?s) ! 0)) = False"
    "pc (runs (react (Reply 0 Decision Garbled) ?s) ! 0) = Failed SyntaxError"
    using decide by (simp_all del: react.simps exec.simps)
  have r2: "normalized (react (Reply 0 Normalize (Parses JNull)) ?t) = JNull"
    "pc (runs (react (Reply 0 Normalize (Parses JNull)) ?t) ! 0) = Failed TypeError"
    using null by (simp_all del: react.simps exec.simps)
  have r3: "normalized (react (Reply 0 Normalize (Parses ex_not_an_object)) ?t) = ex_not_an_object"
    "is_failed (pc (runs (react (Reply 0 Normalize (Parses ex_not_an_object)) ?t) ! 0)) = False"
    using odd q(2) by (simp_all del: react.simps exec.simps)
  have r4: "sustainabilityRisk (react (Reply 0 Sustainability (Parses ex_odd_score)) ?u) = ex_odd_score"
    "pc (runs (react (Reply 0 Sustainability (Parses ex_odd_score)) ?u) ! 0) = Failed TypeError"
    using score q(1) by (simp_all del: react.simps exec.simps)
  have run: "pc (runs (exec [RunClick, Reply 0 Normalize (Parses ex_not_an_object)] init) ! 0)
      = AwaitRisk ex_not_an_object None None"
    "sent (runs (exec [RunClick, Reply 0 Normalize (Parses ex_not_an_object)] init) ! 0)
      = [NormalizeReq init_input, FinancialReq None, SustainabilityReq None]"
    "sent (runs (exec (ex_risk_half @ [Reply 0 Sustainability (Parses ex_odd_score)]) init) ! 0)
      = [NormalizeReq init_input,
         FinancialReq (Some (JObj [(''revenueScore'', JNum 60), (''cashFlowStability'', JNum 75),
                                   (''debtRatio'', JNum 35), (''creditScore'', JNum 80)])),
         SustainabilityReq (Some (JObj [(''energyCleanliness'', JNum 25), (''carbonEfficiency'', JNum 20),
                                        (''laborEthics'', JNum 90), (''regulatoryRisk'', JNum 10)]))]"
    by (simp_all add: ex_risk_half_def ex_not_an_object_def ex_odd_score_def eval_defs)
  show ?thesis
    using a b c q(1) r1 r2 r3 r4 run by (simp del: react.simps exec.simps)
qed

text \<open>
  Against claim C4 as stated: \<open>getDecision\<close> is answered with a payload that has no
  \<open>status\<close>. The run does not fail at the decide stage: the payload is the published
  decision, its \<open>greenCreditScore\<close> is set, nothing is logged or alerted, and the run has
  gone on to invoke \<open>planUplift\<close> and \<open>simulateClimate\<close>.
\<close>

theorem decision_without_status_is_published:
  "member ex_no_status ''status'' = Inr None \<and>
   decision (exec ex_decide_no_status init) = ex_no_status \<and>
   member (decision (exec ex_decide_no_status init)) ''greenCreditScore'' = Inr (Some (JNum 72)) \<and>
   pc (runs (exec ex_decide_no_status init) ! 0) =
     AwaitUplift ex_norm ex_fin ex_sust ex_no_status None None \<and>
   started (runs (exec ex_decide_no_status init) ! 0) =
     [Normalize, Financial, Sustainability, Decision, Uplift, Climate] \<and>
   console (exec ex_decide_no_status init) = [] \<and>
   alerts (exec ex_decide_no_status init) = 0"
  by (simp add: ex_decide_no_status_def ex_no_status_def eval_defs)

section \<open>The debounce timer\<close>

lemma deliver_run_fixed:
  "isRealTime (fst (deliver st rep r s)) = isRealTime r \<and>
   snapshot (fst (deliver st rep r s)) = snapshot r"
  by (cases "pc r") (auto simp: resume_defs split: sum.splits option.splits)

lemma launch_run_fixed:
  "isRealTime (fst (launch cs p r s)) = isRealTime r \<and>
   snapshot (fst (launch cs p r s)) = snapshot r"
  by (simp add: launch_def Let_def split: option.splits)

lemma react_timers_without_data:
  assumes "no_data s" "timers s = []"
  shows "timers (react ev s) = []"
proof (cases ev)
  case (Reply i st rep)
  then show ?thesis
    using assms by (simp add: react_Reply deliver_frame del: react.simps)
qed (use assms in \<open>auto simp: no_data_def ui_defs Let_def launch_def normalizeData_def
      split: option.splits\<close>)

lemma react_no_background_run:
  assumes "timers s = []" "no_background_run s"
  shows "no_background_run (react ev s)"
proof (cases ev)
  case (Change e)
  then show ?thesis
    using assms by (simp add: no_background_run_def handleInputChange_runs)
next
  case RunClick
  then show ?thesis
    using assms
    by (simp add: no_background_run_def runAnalysis_runs launch_run_fixed new_run_def)
next
  case (TimerFires j)
  then show ?thesis using assms by simp
next
  case (Reply i st rep)
  then show ?thesis
    using assms
    by (auto simp: react_Reply no_background_run_def list_all_length nth_list_update
                   deliver_run_fixed simp del: react.simps)
qed (use assms in \<open>auto simp: no_background_run_def ui_defs split: option.splits\<close>)

lemma exec_without_data:
  assumes "holds_before no_data evs s" "timers s = []" "no_background_run s"
  shows "timers (exec evs s) = [] \<and> no_background_run (exec evs s)"
  using assms
proof (induction evs arbitrary: s)
  case Nil
  then show ?case by simp
next
  case (Cons ev evs)
  from Cons.prems have "no_data s" "holds_before no_data evs (react ev s)"
    by simp_all
  moreover have "timers (react ev s) = []"
    using \<open>no_data s\<close> Cons.prems(2) by (rule react_timers_without_data)
  moreover have "no_background_run (react ev s)"
    using Cons.prems(2,3) by (rule react_no_background_run)
  ultimately show ?case
    using Cons.IH [of "react ev s"] by simp
qed

text \<open>
  Claim C5, as the code has it. As long as no normalized data exists (\<open>normalized\<close> has
  been \<open>null\<close> whenever something happened), no timeout is pending and no background run
  has been started, whatever was edited: only the runs started by the button exist.
\<close>

theorem no_background_run_without_data:
  assumes "holds_before no_data evs init"
  shows "timers (exec evs init) = [] \<and> no_background_run (exec evs init)"
  using assms by (rule exec_without_data) (simp_all add: init_def no_background_run_def)

theorem no_background_run_without_data_witness:
  "holds_before no_data
     [Change (SetCarbonIntensity 20), RunClick, Change (SetRevenue 6000000), Elapse 800,
      TimerFires 1, Reply 0 Normalize Rejects, Change (SetCarbonIntensity 30)] init \<and>
   timers (exec [Change (SetCarbonIntensity 20), RunClick, Change (SetRevenue 6000000), Elapse 800,
      TimerFires 1, Reply 0 Normalize Rejects, Change (SetCarbonIntensity 30)] init) = [] \<and>
   no_background_run (exec [Change (SetCarbonIntensity 20), RunClick, Change (SetRevenue 6000000),
      Elapse 800, TimerFires 1, Reply 0 Normalize Rejects, Change (SetCarbonIntensity 30)] init)"
proof -
  have "holds_before no_data
     [Change (SetCarbonIntensity 20), RunClick, Change (SetRevenue 6000000), Elapse 800,
      TimerFires 1, Reply 0 Normalize Rejects, Change (SetCarbonIntensity 30)] init"
    by (simp add: no_data_def eval_defs)
  then show ?thesis
    using no_background_run_without_data by blast
qed

text \<open>
  Against claim C5 as stated: no run has completed (the only run still waits for its risk
  stages), yet the edit has scheduled a timeout, and when it fires a background run starts.
\<close>

theorem edit_before_first_completion_triggers_run:
  "pc (runs (exec ex_early_edit init) ! 0) = AwaitRisk ex_norm None None \<and>
   length (runs (exec ex_early_edit init)) = 1 \<and>
   map tid (timers (exec ex_early_edit init)) = [1] \<and>
   map due (timers (exec ex_early_edit init)) = [800] \<and>
   length (runs (exec (ex_early_edit @ [Elapse 800, TimerFires 1]) init)) = 2 \<and>
   pc (runs (exec (ex_early_edit @ [Elapse 800, TimerFires 1]) init) ! 0) = AwaitRisk ex_norm None None \<and>
   isRealTime (runs (exec (ex_early_edit @ [Elapse 800, TimerFires 1]) init) ! 1) \<and>
   carbonIntensity (snapshot (runs (exec (ex_early_edit @ [Elapse 800, TimerFires 1]) init) ! 1)) = 20"
  by (simp add: ex_early_edit_def eval_defs)

lemma clear_pending_single_flight:
  "single_flight s \<Longrightarrow> timers (clear_pending s) = []"
  by (cases "timers s")
     (auto simp: single_flight_def clear_pending_def clearTimeout_def split: option.splits)

lemma clear_pending_fields:
  "debounceTimer (clear_pending s) = debounceTimer s \<and> next_timer (clear_pending s) = next_timer s \<and>
   now (clear_pending s) = now s \<and> input (clear_pending s) = input s \<and>
   normalized (clear_pending s) = normalized s \<and> step (clear_pending s) = step s \<and>
   runs (clear_pending s) = runs s"
  by (simp add: clear_pending_def clearTimeout_def split: option.splits)

lemma clear_pending_idem: "timers s = [] \<Longrightarrow> clear_pending s = s"
  by (simp add: clear_pending_def clearTimeout_def split: option.splits)

text \<open>An edit that changes a watched value, made on the input step.\<close>

lemma watched_edit:
  assumes "single_flight s" "step s = AppStep_Input"
    "watched (apply_edit e (input s)) \<noteq> watched (input s)"
  shows "react (Change e) s =
     (if truthy (normalized s) then
        s\<lparr> input := apply_edit e (input s),
           timers := [\<lparr> tid = next_timer s, due = now s + 800,
                        closure_input = apply_edit e (input s) \<rparr>],
           debounceTimer := Some (next_timer s),
           next_timer := next_timer s + 1 \<rparr>
      else s\<lparr> input := apply_edit e (input s), timers := [] \<rparr>)"
proof -
  let ?s1 = "s\<lparr> input := apply_edit e (input s) \<rparr>"
  have sf: "single_flight ?s1"
    using assms(1) by (simp add: single_flight_def)
  have c: "timers (clear_pending ?s1) = []"
    using sf by (rule clear_pending_single_flight)
  then have cc: "clear_pending (clear_pending ?s1) = clear_pending ?s1"
    by (rule clear_pending_idem)
  have eq: "clear_pending ?s1 = ?s1\<lparr> timers := [] \<rparr>"
    using c by (simp add: clear_pending_def clearTimeout_def split: option.splits)
  show ?thesis
    using assms(2,3) by (simp add: handleInputChange_def debounce_effect_def cc Let_def) (simp add: eq)
qed

lemma react_single_flight:
  assumes "single_flight s"
  shows "single_flight (react ev s)"
proof (cases ev)
  case (Change e)
  show ?thesis
  proof (cases "step s = AppStep_Input \<and> watched (apply_edit e (input s)) \<noteq> watched (input s)")
    case True
    then show ?thesis
      using watched_edit [OF assms, of e] Change by (simp add: single_flight_def del: react.simps)
  next
    case False
    then show ?thesis
      using assms Change by (auto simp: handleInputChange_def single_flight_def Let_def)
  qed
next
  case RunClick
  then show ?thesis
    using assms by (auto simp: single_flight_def runAnalysis_def launch_def normalizeData_def Let_def)
next
  case (TimerFires j)
  then show ?thesis
    using assms
    by (cases "timers s")
       (auto simp: single_flight_def runAnalysis_def launch_def normalizeData_def Let_def
             split: list.splits)
next
  case (Reply i st rep)
  then show ?thesis
    using assms deliver_frame [of st rep "runs s ! i" s]
    by (simp add: react_Reply single_flight_def del: react.simps)
next
  case Unmount
  then show ?thesis
    using clear_pending_single_flight [OF assms] by (simp add: single_flight_def)
qed (use assms in \<open>auto simp: single_flight_def nextStep_def prevStep_def\<close>)

lemma reachable_single_flight: "single_flight (exec evs init)"
proof -
  have "single_flight s \<Longrightarrow> single_flight (exec evs s)" for s
    by (induction evs arbitrary: s) (simp_all add: react_single_flight)
  then show ?thesis by (simp add: init_def single_flight_def)
qed


lemma runAnalysis_started:
  "runs (runAnalysis rt inp s) = runs s @ [started_run rt inp] \<and>
   timers (runAnalysis rt inp s) = timers s"
  by (simp add: runAnalysis_def launch_def normalizeData_def started_run_def new_run_def Let_def)

lemma burst_pending:
  assumes "single_flight s" "step s = AppStep_Input" "truthy (normalized s)"
    "quick_edits e rest (input s)"
  shows "timers (burst e rest s) = [fresh_timeout (burst e rest s)] \<and>
         runs (burst e rest s) = runs s \<and> single_flight (burst e rest s)"
  using assms
proof (induction rest arbitrary: s e)
  case Nil
  then show ?case
    using watched_edit [of s e] react_single_flight [of s "Change e"]
    by (simp add: fresh_timeout_def del: react.simps)
next
  case (Cons a rest)
  obtain d j e' where a: "a = (d, j, e')"
    by (cases a)
  let ?s1 = "react (Change e) s"
  let ?s3 = "react (TimerFires j) (react (Elapse d) ?s1)"
  from Cons.prems a have ch: "watched (apply_edit e (input s)) \<noteq> watched (input s)"
    and d: "d < 800" and rest: "quick_edits e' rest (apply_edit e (input s))"
    by simp_all
  have s1: "?s1 = s\<lparr> input := apply_edit e (input s),
           timers := [\<lparr> tid = next_timer s, due = now s + 800,
                        closure_input = apply_edit e (input s) \<rparr>],
           debounceTimer := Some (next_timer s),
           next_timer := next_timer s + 1 \<rparr>"
    using watched_edit [OF Cons.prems(1,2) ch] Cons.prems(3) by (simp del: react.simps)
  have s3: "?s3 = ?s1\<lparr> now := now s + d \<rparr>"
    using d by (simp add: s1 del: react.simps) simp
  have "single_flight ?s3" "step ?s3 = AppStep_Input" "truthy (normalized ?s3)"
    "quick_edits e' rest (input ?s3)" "runs ?s3 = runs s"
    using Cons.prems(2,3) rest unfolding s3
    by (simp_all add: s1 single_flight_def del: react.simps)
  then show ?case
    using Cons.IH [of ?s3 e'] a by (simp del: react.simps)
qed

lemma pending_fires:
  assumes "timers s = [t]"
  shows "react (TimerFires j) (react (Elapse d) s) =
     (if tid t = j \<and> due t \<le> now s + d
      then runAnalysis True (closure_input t) (s\<lparr> now := now s + d, timers := [] \<rparr>)
      else s\<lparr> now := now s + d \<rparr>)"
  using assms by simp


text \<open>
  Claim C6, as the code has it. In every state the component can reach: at most one timeout
  is pending, the one the ref holds; unmounting leaves none pending; an edit that changes a
  watched value cancels whatever was pending, and, provided normalized data exists, leaves
  exactly one fresh timeout, due 800 ms later and holding the input as just edited (without
  normalized data it leaves none). And when normalized data exists, a burst of edits of
  watched values with pauses under 800 ms starts no run while it lasts, although a firing
  is attempted after every pause; it leaves exactly one timeout pending, due 800 ms after
  the last edit; that timeout does not fire earlier, and when it fires exactly one run is
  added, a background run on the input as last edited, and nothing is left pending.
\<close>

theorem debounce_single_flight:
  fixes evs :: "event list" and e :: edit and rest :: "(nat \<times> nat \<times> edit) list"
  defines "s \<equiv> exec evs init"
  defines "s' \<equiv> burst e rest (exec evs init)"
  shows
  "single_flight s \<and>
   timers (react Unmount s) = [] \<and>
   (step s = AppStep_Input \<and> watched (apply_edit e (input s)) \<noteq> watched (input s) \<longrightarrow>
      timers (react (Change e) s) =
        (if truthy (normalized s) then [fresh_timeout (react (Change e) s)] else [])) \<and>
   (step s = AppStep_Input \<and> truthy (normalized s) \<and> quick_edits e rest (input s) \<longrightarrow>
      runs s' = runs s \<and>
      timers s' = [fresh_timeout s'] \<and>
      (d < 800 \<longrightarrow> react (TimerFires j) (react (Elapse d) s') = s'\<lparr> now := now s' + d \<rparr>) \<and>
      (800 \<le> d \<longrightarrow>
         runs (react (TimerFires (tid (fresh_timeout s'))) (react (Elapse d) s')) =
           runs s @ [started_run True (input s')] \<and>
         timers (react (TimerFires (tid (fresh_timeout s'))) (react (Elapse d) s')) = []))"
proof -
  have sf: "single_flight s"
    unfolding s_def by (rule reachable_single_flight)
  have un: "timers (react Unmount s) = []"
    using clear_pending_single_flight [OF sf] by simp
  have ed: "timers (react (Change e) s) =
        (if truthy (normalized s) then [fresh_timeout (react (Change e) s)] else [])"
    if "step s = AppStep_Input" "watched (apply_edit e (input s)) \<noteq> watched (input s)"
    using watched_edit [OF sf that] by (simp add: fresh_timeout_def del: react.simps)
  have bu: "runs s' = runs s \<and>
      timers s' = [fresh_timeout s'] \<and>
      (d < 800 \<longrightarrow> react (TimerFires j) (react (Elapse d) s') = s'\<lparr> now := now s' + d \<rparr>) \<and>
      (800 \<le> d \<longrightarrow>
         runs (react (TimerFires (tid (fresh_timeout s'))) (react (Elapse d) s')) =
           runs s @ [started_run True (input s')] \<and>
         timers (react (TimerFires (tid (fresh_timeout s'))) (react (Elapse d) s')) = [])"
    if "step s = AppStep_Input" "truthy (normalized s)" "quick_edits e rest (input s)"
  proof -
    have p: "timers s' = [fresh_timeout s']" and r: "runs s' = runs s"
      using burst_pending [OF sf that] unfolding s'_def s_def by simp_all
    show ?thesis
      using r p pending_fires [OF p, of j d] 
        pending_fires [OF p, of "tid (fresh_timeout s')" d]
      by (simp add: runAnalysis_started fresh_timeout_def del: react.simps)
  qed
  show ?thesis
    using sf un ed bu by blast
qed

theorem debounce_single_flight_witness:
  "step (exec ex_first_run init) = AppStep_Input \<and>
   truthy (normalized (exec ex_first_run init)) \<and>
   quick_edits (SetCarbonIntensity 20) ex_sliders (input (exec ex_first_run init)) \<and>
   length (runs (exec ex_first_run init)) = 1 \<and>
   map due (timers (burst (SetCarbonIntensity 20) ex_sliders (exec ex_first_run init))) = [1100] \<and>
   runs (react (TimerFires 3)
          (react (Elapse 800) (burst (SetCarbonIntensity 20) ex_sliders (exec ex_first_run init)))) =
     runs (exec ex_first_run init) @
       [started_run True (init_input\<lparr> carbonIntensity := 30, revenue := 6000000 \<rparr>)]"
proof -
  let ?s = "exec ex_first_run init"
  let ?s' = "burst (SetCarbonIntensity 20) ex_sliders ?s"
  have a: "step ?s = AppStep_Input" "truthy (normalized ?s)" "length (runs ?s) = 1"
    by (simp_all add: ex_first_run_def eval_defs)
  have b: "quick_edits (SetCarbonIntensity 20) ex_sliders (input ?s)"
    by (simp add: ex_first_run_def ex_sliders_def eval_defs)
  have c: "tid (fresh_timeout ?s') = 3" "due (fresh_timeout ?s') = 1100"
    "input ?s' = init_input\<lparr> carbonIntensity := 30, revenue := 6000000 \<rparr>"
    by (simp_all add: ex_first_run_def ex_sliders_def eval_defs fresh_timeout_def)
  note inst = debounce_single_flight [of ex_first_run "SetCarbonIntensity 20" ex_sliders 800 0]
  from inst a b have "timers ?s' = [fresh_timeout ?s']"
    by blast
  moreover from inst a b have "runs (react (TimerFires (tid (fresh_timeout ?s'))) (react (Elapse 800) ?s')) =
           runs ?s @ [started_run True (input ?s')]"
    by blast
  ultimately show ?thesis
    using a b c by (simp del: react.simps exec.simps burst.simps)
qed

text \<open>
  Against claim C6 as stated: in the initial state, where no normalized data exists, an
  edit of a slider starts no timeout, and two edits within the delay produce no run.
\<close>

theorem edit_without_data_starts_no_timer:
  "timers (exec [Change (SetRevenue 6000000)] init) = [] \<and>
   revenue (input (exec [Change (SetRevenue 6000000)] init)) = 6000000 \<and>
   runs (exec [Change (SetRevenue 6000000), Elapse 100, Change (SetRevenue 7000000),
               Elapse 800, TimerFires 1] init) = []"
  by (simp add: eval_defs)

section \<open>The input a run works on\<close>

lemma deliver_local: "fst (deliver st rep r s) = fst (deliver st rep r s')"
  by (cases "pc r") (auto simp: resume_defs split: sum.splits option.splits)

lemma replies_to_other:
  "(\<And>st rep. ev \<noteq> Reply i st rep) \<Longrightarrow> replies_to i (ev # evs) = replies_to i evs"
  by (cases ev) auto

text \<open>
  What becomes of run \<open>i\<close> is a function of its own record and of the answers given to
  it; \<open>init\<close> only fills the argument of \<open>deliver\<close> that the run's record does not depend on.
\<close>

lemma exec_run_local:
  assumes "i < length (runs s)"
  shows "i < length (runs (exec evs s)) \<and>
         runs (exec evs s) ! i =
           fold (\<lambda>a r. fst (deliver (fst a) (snd a) r init)) (replies_to i evs) (runs s ! i)"
  using assms
proof (induction evs arbitrary: s)
  case Nil
  then show ?case by simp
next
  case (Cons ev evs)
  have len: "i < length (runs (react ev s))"
    using Cons.prems react_length [of s ev] by simp
  show ?case
  proof (cases "\<exists>st rep. ev = Reply i st rep")
    case True
    then obtain st rep where ev: "ev = Reply i st rep"
      by blast
    have "runs (react ev s) ! i = fst (deliver st rep (runs s ! i) init)"
      using Cons.prems deliver_local [of st rep "runs s ! i" s init]
      by (simp add: ev react_Reply_fields del: react.simps)
    then show ?thesis
      using Cons.IH [OF len] ev by simp
  next
    case False
    then have "runs (react ev s) ! i = runs s ! i"
      using react_other_run [OF Cons.prems, of ev] by blast
    moreover have "replies_to i (ev # evs) = replies_to i evs"
      using False by (intro replies_to_other) blast
    ultimately show ?thesis
      using Cons.IH [OF len] by simp
  qed
qed

lemma exec_snapshot:
  assumes "i < length (runs s)"
  shows "snapshot (runs (exec evs s) ! i) = snapshot (runs s ! i)"
proof -
  have "snapshot (fold (\<lambda>a r. fst (deliver (fst a) (snd a) r init)) xs r) = snapshot r" for xs r
    by (induction xs arbitrary: r) (simp_all add: deliver_run_fixed)
  then show ?thesis
    using exec_run_local [OF assms, of evs] by simp
qed


lemma deliver_mode:
  "fst (deliver st rep (r\<lparr> isRealTime := b \<rparr>) s) = (fst (deliver st rep r s))\<lparr> isRealTime := b \<rparr>"
  by (cases "pc r") (auto simp: resume_defs split: sum.splits option.splits)

lemma fold_deliver_mode:
  "fold (\<lambda>a r. fst (deliver (fst a) (snd a) r init)) xs (r\<lparr> isRealTime := b \<rparr>) =
   (fold (\<lambda>a r. fst (deliver (fst a) (snd a) r init)) xs r)\<lparr> isRealTime := b \<rparr>"
  by (induction xs arbitrary: r) (simp_all add: deliver_mode)

text \<open>
  No edit touches a run. What becomes of a run (the requests its stages send, the values
  they resolve with) depends only on its own record, which holds the input of its closure,
  and on the answers the oracle gives to it: two runs with the same record up to their
  mode, in whatever states and under whatever other events and edits, that are given the
  same answers end with the same record up to their mode. And the button starts a run on
  the input as it is at the click.
\<close>

lemma run_isolated_from_edits:
  assumes "i < length (runs s1)" and "j < length (runs s2)"
    and "runs s2 ! j = (runs s1 ! i)\<lparr> isRealTime := b \<rparr>"
    and "replies_to j evs2 = replies_to i evs1"
  shows "runs (exec evs2 s2) ! j = (runs (exec evs1 s1) ! i)\<lparr> isRealTime := b \<rparr> \<and>
         sent (runs (exec evs2 s2) ! j) = sent (runs (exec evs1 s1) ! i) \<and>
         snapshot (runs (exec evs1 s1) ! i) = snapshot (runs s1 ! i) \<and>
         runs (react (Change e) s1) = runs s1 \<and>
         runs (react RunClick s1) =
           (if step s1 = AppStep_Input \<and> \<not> loading s1
            then runs s1 @ [started_run False (input s1)] else runs s1)"
proof -
  have "runs (exec evs2 s2) ! j = (runs (exec evs1 s1) ! i)\<lparr> isRealTime := b \<rparr>"
    using exec_run_local [OF assms(1), of evs1] exec_run_local [OF assms(2), of evs2] assms(3,4)
    by (simp add: fold_deliver_mode)
  moreover from this have "sent (runs (exec evs2 s2) ! j) = sent (runs (exec evs1 s1) ! i)"
    by simp
  moreover have "snapshot (runs (exec evs1 s1) ! i) = snapshot (runs s1 ! i)"
    using assms(1) by (rule exec_snapshot)
  moreover have "runs (react (Change e) s1) = runs s1"
    by (simp add: handleInputChange_runs)
  ultimately show ?thesis
    by (simp add: runAnalysis_started)
qed

text \<open>
  Claim C9 says that a run reads the input as it is at the moment the run starts. The
  interactive path does: a click starts a run on the input of that moment. The background
  path does not. After a first full run, a slider is moved, the industry is changed 100 ms
  later, and the timeout fires 700 ms after that. The background run that starts then is
  given the input of the closure the timeout was created in, which is the input as it was
  when the slider was moved (industry \<open>Manufacturing\<close>), not the input of the moment
  it starts (industry \<open>Energy\<close>). A click at that same moment instead of the timeout
  starts a run on the input of that moment.
\<close>

theorem background_run_reads_earlier_input:
  "length (runs (exec (butlast ex_industry_edit) init)) = 1 \<and>
   length (runs (exec ex_industry_edit init)) = 2 \<and>
   now (exec ex_industry_edit init) = 800 \<and>
   isRealTime (runs (exec ex_industry_edit init) ! 1) \<and>
   pc (runs (exec ex_industry_edit init) ! 1) = AwaitNormalize \<and>
   industry (input (exec ex_industry_edit init)) = ''Energy'' \<and>
   carbonIntensity (input (exec ex_industry_edit init)) = 20 \<and>
   industry (snapshot (runs (exec ex_industry_edit init) ! 1)) = ''Manufacturing'' \<and>
   sent (runs (exec ex_industry_edit init) ! 1) =
     [NormalizeReq (init_input\<lparr> carbonIntensity := 20 \<rparr>)] \<and>
   sent (runs (exec (butlast ex_industry_edit @ [RunClick]) init) ! 1) =
     [NormalizeReq (init_input\<lparr> industry := ''Energy'', carbonIntensity := 20 \<rparr>)]"
  by (simp add: ex_industry_edit_def ex_first_run_def eval_defs)

section \<open>The wizard step in every reachable state\<close>

lemma deliver_step_change:
  "step (snd (deliver st rep r s)) = step s \<or>
   st = Review \<and> (\<exists>v. rep = Parses v) \<and> \<not> isRealTime r \<and>
   pc (fst (deliver st rep r s)) = Succeeded \<and>
   step (snd (deliver st rep r s)) = AppStep_Normalization"
  by (cases "pc r"; cases rep) (auto simp: resume_defs split: sum.splits option.splits)

lemma react_step_change:
  "step (react ev s) = step s \<or>
   ev = Next \<and> step (react ev s) = step (nextStep s) \<or>
   ev = Prev \<and> step (react ev s) = step (prevStep s) \<or>
   (\<exists>i v. ev = Reply i Review (Parses v) \<and> i < length (runs s) \<and>
      \<not> isRealTime (runs s ! i) \<and> pc (runs (react ev s) ! i) = Succeeded) \<and>
   step (react ev s) = AppStep_Normalization"
proof (cases ev)
  case (Reply i st rep)
  show ?thesis
  proof (cases "i < length (runs s)")
    case True
    then show ?thesis
      using deliver_step_change [of st rep "runs s ! i" s] Reply
      by (auto simp: react_Reply_fields simp del: react.simps)
  next
    case False
    then show ?thesis using Reply by simp
  qed
qed (auto simp: ui_defs launch_def normalizeData_def Let_def split: option.splits list.splits)

text \<open>
  Claim C10. \<open>nextStep\<close> never goes past \<open>Review\<close> and \<open>prevStep\<close> never below \<open>Input\<close>.
  Whatever happens, the step stays as it is, or Next makes it what \<open>nextStep\<close> gives, or
  Back makes it what \<open>prevStep\<close> gives, or the last answer to an interactive run, which
  thereby succeeds, makes it \<open>Normalization\<close>. And in every state the component can reach
  from its initial state the step lies between \<open>Input\<close> (1) and \<open>Review\<close> (8).
\<close>

theorem step_always_valid:
  "step (nextStep s) \<le> AppStep_Review \<and>
   AppStep_Input \<le> step (prevStep s) \<and>
   (step (react ev s) = step s \<or>
    ev = Next \<and> step (react ev s) = step (nextStep s) \<or>
    ev = Prev \<and> step (react ev s) = step (prevStep s) \<or>
    (\<exists>i v. ev = Reply i Review (Parses v) \<and> i < length (runs s) \<and>
       \<not> isRealTime (runs s ! i) \<and> pc (runs (react ev s) ! i) = Succeeded) \<and>
    step (react ev s) = AppStep_Normalization) \<and>
   AppStep_Input \<le> step (exec evs init) \<and> step (exec evs init) \<le> AppStep_Review"
proof -
  have "1 \<le> step init \<and> step init \<le> 8"
    by (simp add: init_def step_defs)
  then have "1 \<le> step (exec evs init) \<and> step (exec evs init) \<le> 8"
    by (rule exec_step_range)
  then show ?thesis
    using react_step_change [of ev s]
    by (simp add: nextStep_def prevStep_def step_defs del: react.simps)
qed

theorem step_always_valid_witness:
  "step (exec (RunClick # butlast (ex_answers 0)) init) = AppStep_Input \<and>
   step (react (Reply 0 Review (Parses ex_rev)) (exec (RunClick # butlast (ex_answers 0)) init))
     = AppStep_Normalization \<and>
   step (exec (RunClick # ex_answers 0 @ [Next, Next, Prev, Next, Next, Next, Next, Next, Next, Next]) init)
     = AppStep_Review \<and>
   AppStep_Input \<le>
     step (exec (RunClick # ex_answers 0 @ [Next, Next, Prev, Next, Next, Next, Next, Next, Next, Next]) init)"
proof -
  have a: "step (exec (RunClick # butlast (ex_answers 0)) init) = AppStep_Input"
    "step (react (Reply 0 Review (Parses ex_rev)) (exec (RunClick # butlast (ex_answers 0)) init))
       = AppStep_Normalization"
    by (simp_all add: eval_defs)
  have b: "step (exec (RunClick # ex_answers 0 @
        [Next, Next, Prev, Next, Next, Next, Next, Next, Next, Next]) init) = AppStep_Review"
    by (simp add: eval_defs)
  show ?thesis
    using step_always_valid [of "exec (RunClick # butlast (ex_answers 0)) init"
        "Reply 0 Review (Parses ex_rev)"
        "RunClick # ex_answers 0 @ [Next, Next, Prev, Next, Next, Next, Next, Next, Next, Next]"]
      a b
    by (simp del: react.simps exec.simps)
qed

end
